theory Spec2Isabelle
  imports Main "HOL-Library.Word"
begin

unbundle bit_operations_syntax

section \<open>Go values: slices, panics and errors\<close>

text \<open>
  A Go panic aborts the call; an \<open>error\<close> is an ordinary return value.  The two are
  kept apart: a function that can panic returns \<open>panic + 'a\<close> (\<open>Inl\<close> the panic), and
  an \<open>error\<close> result is a value of type \<open>error option\<close> (\<open>None\<close> is Go's \<open>nil\<close>).
\<close>

datatype panic =
    SolvingSameWireTwice      \<comment> \<open>\<open>panic("solving the same wire twice should never happen.")\<close>\<close>
  | UnsolvedWireTerm          \<comment> \<open>\<open>panic("computing a term with an unsolved wire")\<close>\<close>
  | IndexOutOfRange           \<comment> \<open>run-time panic of a slice index out of range\<close>
  | MakeSliceLen              \<comment> \<open>run-time panic of \<open>make\<close> with a negative length\<close>
  | RegisteredTwice           \<comment> \<open>\<open>panic(fmt.Sprintf("function %s registered twice", hintFn))\<close>\<close>

datatype error =
    MissingHintFunction       \<comment> \<open>\<open>errors.New("missing hint function")\<close>\<close>
  | WireNotInstantiated       \<comment> \<open>\<open>errors.New("expected wire to be instantiated while evaluating hint")\<close>\<close>
  | DuplicateHintFunction     \<comment> \<open>\<open>fmt.Errorf("duplicate hint function %s", h)\<close>\<close>
  | InputArity int int        \<comment> \<open>\<open>fmt.Errorf("input has %d elements, expected %d", ...)\<close>\<close>
  | ResultArity int int       \<comment> \<open>\<open>fmt.Errorf("result has %d elements, expected %d", ...)\<close>\<close>
  | HintFailed string         \<comment> \<open>any error returned by a hint's own computation\<close>

text \<open>Reading \<open>xs[i]\<close> with a Go \<open>int\<close> index: \<open>None\<close> where Go panics.\<close>

definition slice_get :: "'a list \<Rightarrow> int \<Rightarrow> 'a option" where
  "slice_get xs i = (if 0 \<le> i \<and> i < int (length xs) then Some (xs ! nat i) else None)"

definition in_range :: "'a list \<Rightarrow> int \<Rightarrow> bool" where
  "in_range xs i = (0 \<le> i \<and> i < int (length xs))"

section \<open>Field elements (package fr of bls12-381)\<close>

text \<open>
  An \<open>fr.Element\<close> is an element of the scalar field of BLS12-381, kept here as its
  regular (non-Montgomery) representative in \<open>[0, q)\<close>.  The operations are those the
  solver calls.
\<close>

type_synonym fr = int

definition fr_Modulus :: int where
  "fr_Modulus = 52435875175126190479447740508185965837690552500527637822603658699938581184513"

definition fr_valid :: "fr \<Rightarrow> bool" where
  "fr_valid x = (0 \<le> x \<and> x < fr_Modulus)"

definition fr_Zero :: fr where "fr_Zero = 0"
definition fr_One :: fr where "fr_One = 1"

definition fr_Add :: "fr \<Rightarrow> fr \<Rightarrow> fr" where
  "fr_Add x y = (x + y) mod fr_Modulus"

definition fr_Double :: "fr \<Rightarrow> fr" where
  "fr_Double x = (x + x) mod fr_Modulus"

definition fr_Neg :: "fr \<Rightarrow> fr" where
  "fr_Neg x = (if x = 0 then 0 else fr_Modulus - x)"

definition fr_Mul :: "fr \<Rightarrow> fr \<Rightarrow> fr" where
  "fr_Mul x y = (x * y) mod fr_Modulus"

definition fr_SetBigInt :: "int \<Rightarrow> fr" where
  "fr_SetBigInt v = v mod fr_Modulus"

definition fr_ToBigIntRegular :: "fr \<Rightarrow> int" where
  "fr_ToBigIntRegular x = x"

text \<open>The literal \<open>-1\<close> of the field, and \<open>2\<close>.\<close>

definition fr_MinusOne :: fr where "fr_MinusOne = fr_Neg fr_One"
definition fr_Two :: fr where "fr_Two = 2"

section \<open>Terms and linear combinations (package compiled)\<close>

datatype Visibility = Public | Secret | Internal | Virtual

text \<open>
  Modelled from the spec: the type \<open>compiled.Term\<close> is declared outside the files at
  hand; the spec gives it as an immutable triple (coefficientID, wireID, visibility),
  which is what \<open>Unpack\<close> returns.
\<close>

record Term =
  coeffID :: int
  variableID :: int
  variableVisibility :: Visibility

definition Unpack :: "Term \<Rightarrow> int \<times> int \<times> Visibility" where
  "Unpack t = (coeffID t, variableID t, variableVisibility t)"

text \<open>
  The constants \<open>compiled.CoeffIdZero\<close>, \<open>CoeffIdOne\<close>, \<open>CoeffIdTwo\<close>,
  \<open>CoeffIdMinusOne\<close> and \<open>compiled.TermDelimitor\<close> are declared outside the files at
  hand; every function that uses them takes them as the parameter \<open>k\<close>.
\<close>

record compiled_consts =
  CoeffIdZero :: int
  CoeffIdOne :: int
  CoeffIdTwo :: int
  CoeffIdMinusOne :: int
  TermDelimitor :: Term

definition reserved :: "compiled_consts \<Rightarrow> int \<Rightarrow> bool" where
  "reserved k c = (c = CoeffIdZero k \<or> c = CoeffIdOne k \<or> c = CoeffIdTwo k \<or> c = CoeffIdMinusOne k)"

text \<open>
  A \<open>Variable\<close> is a Go slice of terms: \<open>None\<close> is the \<open>nil\<close> slice, \<open>Some ts\<close> a
  non-nil slice holding \<open>ts\<close> (possibly none).
\<close>

type_synonym Variable = "Term list option"

definition terms :: "Variable \<Rightarrow> Term list" where
  "terms v = (case v of None \<Rightarrow> [] | Some ts \<Rightarrow> ts)"

definition Len :: "Variable \<Rightarrow> int" where
  "Len v = int (length (terms v))"

definition Clone :: "Variable \<Rightarrow> Variable" where
  "Clone v = Some (terms v)"

text \<open>
  The loop of \<open>Equal\<close>, over the remaining positions of the two slices.  It runs
  after the lengths were found equal, so the second equation is never reached.
\<close>

fun Equal_loop :: "Term list \<Rightarrow> Term list \<Rightarrow> bool" where
  "Equal_loop [] _ = True"
| "Equal_loop (x # xs) [] = True"
| "Equal_loop (x # xs) (y # ys) = (if x \<noteq> y then False else Equal_loop xs ys)"

definition Equal :: "Variable \<Rightarrow> Variable \<Rightarrow> bool" where
  "Equal v o' =
     (if Len v \<noteq> Len o' then False
      else if (v = None) \<noteq> (o' = None) then False
      else Equal_loop (terms v) (terms o'))"

section \<open>Hint functions (package hint)\<close>

type_synonym hint_ID = "32 word"

datatype ecc_ID = UNKNOWN | BN254 | BLS12_377 | BLS12_381 | BLS24_315 | BW6_761

definition curve_ID :: ecc_ID where
  "curve_ID = BLS12_381"

text \<open>
  A \<open>hint.Function\<close> reads the inputs and writes into the big integers of \<open>res\<close>; it
  is given the contents of \<open>res\<close> and returns its error and the contents afterwards.
\<close>

type_synonym Function = "ecc_ID \<Rightarrow> int list \<Rightarrow> int list \<Rightarrow> error option \<times> int list"

text \<open>
  The interface \<open>AnnotatedFunction\<close>, as the record of its methods.  The method
  \<open>String\<close> only feeds the text of messages and is left out, with those texts.
\<close>

record AnnotatedFunction =
  UUID :: hint_ID
  Call :: Function
  TotalInputs :: int
  TotalOutputs :: "int \<Rightarrow> int"

subsection \<open>Fixed-arity hints and their identifier\<close>

text \<open>
  \<open>fn_name\<close> is the name that \<open>runtime.FuncForPC(reflect.ValueOf(h.fn).Pointer()).Name()\<close>
  gives for \<open>fn\<close>: a function value of HOL has no code pointer, so the name is kept
  beside the function.
\<close>

record fixedArgumentsFunction =
  fn_name :: string
  fn :: Function
  nIn :: int
  nOut :: int

definition fixed_Call :: "fixedArgumentsFunction \<Rightarrow> Function" where
  "fixed_Call h curveID inputs res =
     (if int (length inputs) \<noteq> nIn h then (Some (InputArity (int (length inputs)) (nIn h)), res)
      else if int (length res) \<noteq> nOut h then (Some (ResultArity (int (length res)) (nOut h)), res)
      else fn h curveID inputs res)"

definition fixed_TotalInputs :: "fixedArgumentsFunction \<Rightarrow> int" where
  "fixed_TotalInputs h = nIn h"

definition fixed_TotalOutputs :: "fixedArgumentsFunction \<Rightarrow> int \<Rightarrow> int" where
  "fixed_TotalOutputs h _ = nOut h"

text \<open>The 32-bit FNV-1a hash of \<open>hash/fnv\<close>: \<open>New32a\<close>, \<open>Write\<close>, \<open>Sum32\<close>.\<close>

definition fnv_offset32 :: "32 word" where
  "fnv_offset32 = 2166136261"

definition fnv_prime32 :: "32 word" where
  "fnv_prime32 = 16777619"

definition fnv_step :: "32 word \<Rightarrow> 8 word \<Rightarrow> 32 word" where
  "fnv_step hsh b = (hsh XOR ucast b) * fnv_prime32"

definition fnv_Write :: "32 word \<Rightarrow> 8 word list \<Rightarrow> 32 word" where
  "fnv_Write hsh bs = foldl fnv_step hsh bs"

text \<open>\<open>binary.BigEndian.PutUint64\<close>: the eight bytes of a 64-bit value, highest first.\<close>

definition PutUint64 :: "64 word \<Rightarrow> 8 word list" where
  "PutUint64 v = map (\<lambda>i. ucast (drop_bit (8 * i) v)) [7, 6, 5, 4, 3, 2, 1, 0 :: nat]"

definition bytes_of :: "string \<Rightarrow> 8 word list" where
  "bytes_of name = map of_char name"

definition fixed_UUID :: "fixedArgumentsFunction \<Rightarrow> hint_ID" where
  "fixed_UUID h =
     (let hf = fnv_offset32;
          hf = fnv_Write hf (bytes_of (fn_name h));
          hf = fnv_Write hf (PutUint64 (word_of_int (nIn h)));
          hf = fnv_Write hf (PutUint64 (word_of_int (nOut h)))
      in hf)"

definition as_AnnotatedFunction :: "fixedArgumentsFunction \<Rightarrow> AnnotatedFunction" where
  "as_AnnotatedFunction h =
     \<lparr>UUID = fixed_UUID h, Call = fixed_Call h,
      TotalInputs = fixed_TotalInputs h, TotalOutputs = fixed_TotalOutputs h\<rparr>"

definition NewFixedHint :: "string \<Rightarrow> Function \<Rightarrow> int \<Rightarrow> int \<Rightarrow> AnnotatedFunction" where
  "NewFixedHint name f n_in n_out =
     as_AnnotatedFunction \<lparr>fn_name = name, fn = f, nIn = n_in, nOut = n_out\<rparr>"

subsection \<open>The registry\<close>

text \<open>
  The package variable \<open>registry\<close> is passed in and returned; the lock around it has no
  effect on a single caller.
\<close>

type_synonym registry = "hint_ID \<rightharpoonup> AnnotatedFunction"

definition Register :: "registry \<Rightarrow> AnnotatedFunction \<Rightarrow> panic + registry" where
  "Register reg hintFn =
     (let key = UUID hintFn in
      if reg key \<noteq> None then Inl RegisteredTwice
      else Inr (reg(key \<mapsto> hintFn)))"

section \<open>The solution (package cs)\<close>

record solution =
  "values" :: "fr list"
  coefficients :: "fr list"
  solved :: "bool list"
  nbSolved :: int
  mHintsFunctions :: "hint_ID \<rightharpoonup> AnnotatedFunction"

definition set_sol :: "solution \<Rightarrow> int \<Rightarrow> fr \<Rightarrow> panic + solution" where
  "set_sol s i v =
     (case slice_get (solved s) i of
        None \<Rightarrow> Inl IndexOutOfRange
      | Some True \<Rightarrow> Inl SolvingSameWireTwice
      | Some False \<Rightarrow>
          if \<not> in_range (values s) i then Inl IndexOutOfRange
          else Inr (s\<lparr>values := (values s)[nat i := v],
                      solved := (solved s)[nat i := True],
                      nbSolved := nbSolved s + 1\<rparr>))"

definition isValid :: "solution \<Rightarrow> bool" where
  "isValid s = (nbSolved s = int (length (values s)))"

definition computeTerm :: "compiled_consts \<Rightarrow> solution \<Rightarrow> Term \<Rightarrow> panic + fr" where
  "computeTerm k s t =
     (let (cID, vID, _) = Unpack t in
      if cID \<noteq> 0 \<and> slice_get (solved s) vID = None then Inl IndexOutOfRange
      else if cID \<noteq> 0 \<and> slice_get (solved s) vID = Some False then Inl UnsolvedWireTerm
      else if cID = CoeffIdZero k then Inr fr_Zero
      else if cID = CoeffIdOne k then
        (case slice_get (values s) vID of
           None \<Rightarrow> Inl IndexOutOfRange
         | Some x \<Rightarrow> Inr x)
      else if cID = CoeffIdTwo k then
        (case slice_get (values s) vID of
           None \<Rightarrow> Inl IndexOutOfRange
         | Some x \<Rightarrow> Inr (fr_Double x))
      else if cID = CoeffIdMinusOne k then
        (case slice_get (values s) vID of
           None \<Rightarrow> Inl IndexOutOfRange
         | Some x \<Rightarrow> Inr (fr_Neg x))
      else
        (case slice_get (coefficients s) cID of
           None \<Rightarrow> Inl IndexOutOfRange
         | Some c \<Rightarrow>
            (case slice_get (values s) vID of
               None \<Rightarrow> Inl IndexOutOfRange
             | Some x \<Rightarrow> Inr (fr_Mul c x))))"

definition newSolution_hints ::
  "(hint_ID \<rightharpoonup> AnnotatedFunction) \<Rightarrow> AnnotatedFunction list
     \<Rightarrow> error + (hint_ID \<rightharpoonup> AnnotatedFunction)" where
  "newSolution_hints m hs =
     foldl (\<lambda>r h. case r of
                     Inl e \<Rightarrow> Inl e
                   | Inr m' \<Rightarrow> if m' (UUID h) \<noteq> None then Inl DuplicateHintFunction
                              else Inr (m'(UUID h \<mapsto> h)))
           (Inr m) hs"

definition newSolution ::
  "int \<Rightarrow> AnnotatedFunction list \<Rightarrow> fr list \<Rightarrow> panic + (error + solution)" where
  "newSolution nbWires hintFunctions coeffs =
     (if nbWires < 0 then Inl MakeSliceLen
      else case newSolution_hints Map.empty hintFunctions of
             Inl e \<Rightarrow> Inr (Inl e)
           | Inr m \<Rightarrow>
               Inr (Inr \<lparr>values = replicate (nat nbWires) fr_Zero,
                         coefficients = coeffs,
                         solved = replicate (nat nbWires) False,
                         nbSolved = 0,
                         mHintsFunctions = m\<rparr>))"

subsection \<open>Solving a wire with a hint\<close>

text \<open>
  Modelled from the spec: the type \<open>compiled.Hint\<close> is declared outside the files at
  hand; the spec gives it as a hint function identifier, a list of input linear
  combinations and a list of output wire IDs.
\<close>

record Hint =
  ID :: hint_ID
  Inputs :: "Variable list"
  Wires :: "int list"

text \<open>
  The inner loop over the terms of one input: \<open>acc\<close> is \<open>inputs[i]\<close> and \<open>lam\<close> the
  content of the scratch integer \<open>lambda\<close>.  The result is a panic, or the error
  returned, or the two integers after the last term.
\<close>

fun eval_terms ::
  "compiled_consts \<Rightarrow> solution \<Rightarrow> Term list \<Rightarrow> int \<Rightarrow> int \<Rightarrow> panic + (error + int \<times> int)" where
  "eval_terms k s [] acc lam = Inr (Inr (acc, lam))"
| "eval_terms k s (t # ts) acc lam =
     (let (ciID, viID, visibility) = Unpack t in
      if visibility = Virtual then
        (case slice_get (coefficients s) ciID of
           None \<Rightarrow> Inl IndexOutOfRange
         | Some c \<Rightarrow>
             (let lam' = fr_ToBigIntRegular c in eval_terms k s ts (acc + lam') lam'))
      else
        (case slice_get (solved s) viID of
           None \<Rightarrow> Inl IndexOutOfRange
         | Some False \<Rightarrow> Inr (Inl WireNotInstantiated)
         | Some True \<Rightarrow>
             (case computeTerm k s t of
                Inl p \<Rightarrow> Inl p
              | Inr v \<Rightarrow>
                  (let lam' = fr_ToBigIntRegular v in eval_terms k s ts (acc + lam') lam'))))"

text \<open>The outer loop over the inputs; every \<open>inputs[i]\<close> starts at 0.\<close>

fun eval_inputs ::
  "compiled_consts \<Rightarrow> solution \<Rightarrow> Variable list \<Rightarrow> int \<Rightarrow> panic + (error + int list \<times> int)" where
  "eval_inputs k s [] lam = Inr (Inr ([], lam))"
| "eval_inputs k s (lc # lcs) lam =
     (case eval_terms k s (terms lc) 0 lam of
        Inl p \<Rightarrow> Inl p
      | Inr (Inl e) \<Rightarrow> Inr (Inl e)
      | Inr (Inr (x, lam')) \<Rightarrow>
          (case eval_inputs k s lcs lam' of
             Inl p \<Rightarrow> Inl p
           | Inr (Inl e) \<Rightarrow> Inr (Inl e)
           | Inr (Inr (xs, lam'')) \<Rightarrow> Inr (Inr (x # xs, lam''))))"

text \<open>
  The call of the hint.  The callee writes into the integers the slice \<open>outputs\<close>
  points to and cannot change its length: whatever list the model of the function
  returns, the buffer keeps its length, and positions not returned keep their content.
\<close>

definition call_hint ::
  "AnnotatedFunction \<Rightarrow> int list \<Rightarrow> int list \<Rightarrow> error option \<times> int list" where
  "call_hint f inputs outputs =
     (let (err, res) = Call f curve_ID inputs outputs
      in (err, take (length outputs) res @ drop (length res) outputs))"

text \<open>
  The loop \<open>for i := range outputs\<close>: \<open>h.Wires[i]\<close> is set to \<open>outputs[i]\<close>; both lists
  are walked from position \<open>i\<close> on.
\<close>

fun set_outputs :: "solution \<Rightarrow> int list \<Rightarrow> int list \<Rightarrow> panic + solution" where
  "set_outputs s ws [] = Inr s"
| "set_outputs s [] (x # xs) = Inl IndexOutOfRange"
| "set_outputs s (w # ws) (x # xs) =
     (case set_sol s w (fr_SetBigInt x) of
        Inl p \<Rightarrow> Inl p
      | Inr s' \<Rightarrow> set_outputs s' ws xs)"

text \<open>
  \<open>pool\<close> gives the stale content of the integers taken from \<open>bigIntPool\<close> and not
  reset: \<open>pool 0\<close> for \<open>lambda\<close>, \<open>pool i\<close> for \<open>outputs[i]\<close>, \<open>i \<ge> 1\<close>.  The result is
  a panic, or the error returned (\<open>None\<close> for \<open>nil\<close>) with the solution as the call
  leaves it.
\<close>

definition solveWithHint ::
  "compiled_consts \<Rightarrow> (nat \<Rightarrow> int) \<Rightarrow> solution \<Rightarrow> int \<Rightarrow> Hint
     \<Rightarrow> panic + (error option \<times> solution)" where
  "solveWithHint k pool s vID h =
     (case slice_get (solved s) vID of
        None \<Rightarrow> Inl IndexOutOfRange
      | Some True \<Rightarrow> Inr (None, s)
      | Some False \<Rightarrow>
         (case mHintsFunctions s (ID h) of
            None \<Rightarrow> Inr (Some MissingHintFunction, s)
          | Some f \<Rightarrow>
             (case eval_inputs k s (Inputs h) (pool 0) of
                Inl p \<Rightarrow> Inl p
              | Inr (Inl e) \<Rightarrow> Inr (Some e, s)
              | Inr (Inr (inputs, lambda)) \<Rightarrow>
                 (let n = TotalOutputs f (int (length inputs)) in
                  if n < 0 then Inl MakeSliceLen
                  else if n = 0 then Inl IndexOutOfRange
                  else
                   (let outputs = lambda # map pool [1..<nat n];
                        inputs' = map (\<lambda>x. x mod fr_Modulus) inputs;
                        (err, outputs') = call_hint f inputs' outputs
                    in case set_outputs s (Wires h) outputs' of
                         Inl p \<Rightarrow> Inl p
                       | Inr s' \<Rightarrow> Inr (err, s'))))))"

subsection \<open>Rendering log entries\<close>

text \<open>
  Modelled from the spec: the type \<open>compiled.LogEntry\<close> is declared outside the files
  at hand; the spec gives it as a format string plus a flat list of terms to resolve.
\<close>

record LogEntry =
  Format :: string
  ToResolve :: "Term list"

definition unsolvedVariable :: string where
  "unsolvedVariable = ''<unsolved>''"

text \<open>
  The loop of \<open>logValue\<close> with its four variables.  \<open>str\<close> is \<open>fr.Element.String\<close>.
\<close>

fun logValue_loop ::
  "compiled_consts \<Rightarrow> (fr \<Rightarrow> string) \<Rightarrow> solution \<Rightarrow> Term list
     \<Rightarrow> bool \<Rightarrow> fr \<Rightarrow> bool \<Rightarrow> string list \<Rightarrow> panic + string list" where
  "logValue_loop k str s [] isEval eval missingValue toResolve = Inr toResolve"
| "logValue_loop k str s (t # ts) isEval eval missingValue toResolve =
     (if t = TermDelimitor k then
        (if \<not> isEval then logValue_loop k str s ts True fr_Zero False toResolve
         else if missingValue then
           logValue_loop k str s ts False eval missingValue (toResolve @ [unsolvedVariable])
         else
           logValue_loop k str s ts False eval missingValue (toResolve @ [str eval]))
      else
       (let (cID, vID, visibility) = Unpack t in
        if isEval then
          (if visibility = Virtual then
             (case slice_get (coefficients s) cID of
                None \<Rightarrow> Inl IndexOutOfRange
              | Some c \<Rightarrow> logValue_loop k str s ts isEval (fr_Add eval c) missingValue toResolve)
           else
             (case slice_get (solved s) vID of
                None \<Rightarrow> Inl IndexOutOfRange
              | Some False \<Rightarrow> logValue_loop k str s ts isEval eval True toResolve
              | Some True \<Rightarrow>
                  (case computeTerm k s t of
                     Inl p \<Rightarrow> Inl p
                   | Inr tv \<Rightarrow>
                       logValue_loop k str s ts isEval (fr_Add eval tv) missingValue toResolve)))
        else if visibility = Virtual then
          (if cID = CoeffIdMinusOne k then
             logValue_loop k str s ts isEval eval missingValue (toResolve @ [''-1''])
           else
             (case slice_get (coefficients s) cID of
                None \<Rightarrow> Inl IndexOutOfRange
              | Some c \<Rightarrow>
                  logValue_loop k str s ts isEval eval missingValue (toResolve @ [str c])))
        else
          (case (if \<not> (cID = CoeffIdMinusOne k \<or> cID = CoeffIdOne k) then
                   (case slice_get (coefficients s) cID of
                      None \<Rightarrow> Inl IndexOutOfRange
                    | Some c \<Rightarrow> Inr (toResolve @ [str c]))
                 else Inr toResolve) of
             Inl p \<Rightarrow> Inl p
           | Inr toResolve' \<Rightarrow>
              (case slice_get (solved s) vID of
                 None \<Rightarrow> Inl IndexOutOfRange
               | Some False \<Rightarrow>
                   logValue_loop k str s ts isEval eval missingValue
                     (toResolve' @ [unsolvedVariable])
               | Some True \<Rightarrow>
                   (case slice_get (values s) vID of
                      None \<Rightarrow> Inl IndexOutOfRange
                    | Some x \<Rightarrow>
                        logValue_loop k str s ts isEval eval missingValue
                          (toResolve' @ [str x]))))))"

text \<open>\<open>sprintf\<close> is \<open>fmt.Sprintf\<close>, applied to the format and the resolved arguments.\<close>

definition logValue ::
  "compiled_consts \<Rightarrow> (fr \<Rightarrow> string) \<Rightarrow> (string \<Rightarrow> string list \<Rightarrow> string)
     \<Rightarrow> solution \<Rightarrow> LogEntry \<Rightarrow> panic + string" where
  "logValue k str sprintf s log =
     (case logValue_loop k str s (ToResolve log) False fr_Zero False [] of
        Inl p \<Rightarrow> Inl p
      | Inr toResolve \<Rightarrow> Inr (sprintf (Format log) toResolve))"

section \<open>Properties: auxiliary notions\<close>

text \<open>
  The solutions that the code of the package can build: \<open>newSolution\<close> makes one, and
  \<open>set\<close> is the only function that writes to the wire arrays.
\<close>

inductive reachable :: "solution \<Rightarrow> bool" where
  reach_new: "newSolution nbWires hintFunctions coeffs = Inr (Inr s) \<Longrightarrow> reachable s"
| reach_set: "reachable s \<Longrightarrow> set_sol s i v = Inr s' \<Longrightarrow> reachable s'"

text \<open>The number of wires marked solved.\<close>

definition count_solved :: "solution \<Rightarrow> int" where
  "count_solved s = int (length (filter (\<lambda>b. b) (solved s)))"

definition inv :: "solution \<Rightarrow> bool" where
  "inv s = (nbSolved s = count_solved s \<and> length (solved s) = length (values s))"

text \<open>
  Two linear combinations are element-wise identical: the same length and the same
  term at every position.
\<close>

definition same_sequence :: "Variable \<Rightarrow> Variable \<Rightarrow> bool" where
  "same_sequence v o' =
     (length (terms v) = length (terms o') \<and>
      list_all (\<lambda>i. terms v ! i = terms o' ! i) [0..<length (terms v)])"

text \<open>
  A term whose IDs lie within the arrays of the solution: reading it cannot raise an
  index panic.
\<close>

definition wf_term :: "compiled_consts \<Rightarrow> solution \<Rightarrow> Term \<Rightarrow> bool" where
  "wf_term k s t =
     (if variableVisibility t = Virtual then in_range (coefficients s) (coeffID t)
      else in_range (solved s) (variableID t) \<and> in_range (values s) (variableID t)
         \<and> (reserved k (coeffID t) \<or> in_range (coefficients s) (coeffID t)))"

text \<open>A real-wire term that references an unsolved wire.\<close>

definition unsolved_term :: "solution \<Rightarrow> Term \<Rightarrow> bool" where
  "unsolved_term s t =
     (variableVisibility t \<noteq> Virtual \<and> slice_get (solved s) (variableID t) = Some False)"

text \<open>
  The scalar value of an input in the words of the specification: the coefficient value of each
  \<open>Virtual\<close> term plus \<open>computeTerm\<close> of each real-wire term.
\<close>

definition term_value :: "compiled_consts \<Rightarrow> solution \<Rightarrow> Term \<Rightarrow> int" where
  "term_value k s t =
     (if variableVisibility t = Virtual then
        (case slice_get (coefficients s) (coeffID t) of Some c \<Rightarrow> c | None \<Rightarrow> 0)
      else (case computeTerm k s t of Inr v \<Rightarrow> v | Inl _ \<Rightarrow> 0))"

definition input_value :: "compiled_consts \<Rightarrow> solution \<Rightarrow> Variable \<Rightarrow> int" where
  "input_value k s lc = sum_list (map (term_value k s) (terms lc))"

text \<open>
  The sixteen bytes that \<open>UUID\<close> hashes after the name, and the number of positions
  at which two byte sequences differ.
\<close>

definition arity_bytes :: "int \<Rightarrow> int \<Rightarrow> 8 word list" where
  "arity_bytes n_in n_out = PutUint64 (word_of_int n_in) @ PutUint64 (word_of_int n_out)"

definition differences :: "'a list \<Rightarrow> 'a list \<Rightarrow> nat" where
  "differences xs ys = length (filter (\<lambda>(x, y). x \<noteq> y) (zip xs ys))"

text \<open>
  What a term resolved outside a span contributes to the arguments: a constant gives
  its literal value; another term gives its coefficient, unless that is 1 or -1, and
  then the value of its wire or the text for an unsolved one.
\<close>

definition render_term ::
  "compiled_consts \<Rightarrow> (fr \<Rightarrow> string) \<Rightarrow> solution \<Rightarrow> Term \<Rightarrow> string list" where
  "render_term k str s t =
     (if variableVisibility t = Virtual then
        [if coeffID t = CoeffIdMinusOne k then ''-1''
         else str (coefficients s ! nat (coeffID t))]
      else
        (if coeffID t \<noteq> CoeffIdOne k \<and> coeffID t \<noteq> CoeffIdMinusOne k
         then [str (coefficients s ! nat (coeffID t))] else [])
        @ [if solved s ! nat (variableID t) then str (values s ! nat (variableID t))
           else unsolvedVariable])"

text \<open>A term that \<open>logValue\<close> can resolve outside a span without an index panic.\<close>

definition wf_log_term :: "compiled_consts \<Rightarrow> solution \<Rightarrow> Term \<Rightarrow> bool" where
  "wf_log_term k s t =
     (if variableVisibility t = Virtual then
        coeffID t = CoeffIdMinusOne k \<or> in_range (coefficients s) (coeffID t)
      else
        (coeffID t = CoeffIdOne k \<or> coeffID t = CoeffIdMinusOne k
           \<or> in_range (coefficients s) (coeffID t))
        \<and> in_range (solved s) (variableID t) \<and> in_range (values s) (variableID t))"

section \<open>Sample values\<close>

definition k0 :: compiled_consts where
  "k0 = \<lparr>CoeffIdZero = 0, CoeffIdOne = 1, CoeffIdTwo = 2, CoeffIdMinusOne = 3,
         TermDelimitor = \<lparr>coeffID = - 1, variableID = - 1, variableVisibility = Virtual\<rparr>\<rparr>"

definition coeffs0 :: "fr list" where
  "coeffs0 = [0, 1, 2, fr_Modulus - 1, 5]"

text \<open>Three wires: wire 0 is 1, wire 1 is 7, wire 2 is not solved.\<close>

definition s0 :: solution where
  "s0 = \<lparr>values = [1, 7, 0], coefficients = coeffs0, solved = [True, True, False],
         nbSolved = 2, mHintsFunctions = Map.empty\<rparr>"

definition term0 :: "int \<Rightarrow> int \<Rightarrow> Visibility \<Rightarrow> Term" where
  "term0 c w vis = \<lparr>coeffID = c, variableID = w, variableVisibility = vis\<rparr>"

text \<open>The solution of two wires that \<open>newSolution\<close> returns, and wire 0 set to 5.\<close>

definition s_new :: solution where
  "s_new = \<lparr>values = [0, 0], coefficients = coeffs0, solved = [False, False],
            nbSolved = 0, mHintsFunctions = Map.empty\<rparr>"

definition s_set :: solution where
  "s_set = \<lparr>values = [5, 0], coefficients = coeffs0, solved = [True, False],
            nbSolved = 1, mHintsFunctions = Map.empty\<rparr>"

text \<open>A hint function that doubles its two inputs, as \<open>multiHint\<close> does.\<close>

definition double2 :: Function where
  "double2 c inputs res = (None, map (\<lambda>x. x * 2) (take 2 inputs) @ drop 2 res)"

text \<open>
  Four wires, 5 and 7 on the first two, and the hint of two outputs that doubles them
  onto wires 2 and 3.
\<close>

definition pool0 :: "nat \<Rightarrow> int" where
  "pool0 i = 0"

definition f_multi :: AnnotatedFunction where
  "f_multi = NewFixedHint ''multiHint'' double2 2 2"

definition s_h :: solution where
  "s_h = \<lparr>values = [5, 7, 0, 0], coefficients = coeffs0, solved = [True, True, False, False],
          nbSolved = 2, mHintsFunctions = [UUID f_multi \<mapsto> f_multi]\<rparr>"

definition s_h' :: solution where
  "s_h' = \<lparr>values = [5, 7, 10, 14], coefficients = coeffs0, solved = [True, True, True, True],
          nbSolved = 4, mHintsFunctions = [UUID f_multi \<mapsto> f_multi]\<rparr>"

definition h_multi :: Hint where
  "h_multi = \<lparr>ID = UUID f_multi,
              Inputs = [Some [term0 1 0 Secret], Some [term0 1 1 Secret]],
              Wires = [2, 3]\<rparr>"

text \<open>A hint whose input reads the unsolved wire 3.\<close>

definition h_early :: Hint where
  "h_early = \<lparr>ID = UUID f_multi,
              Inputs = [Some [term0 1 0 Secret], Some [term0 1 3 Secret]],
              Wires = [2, 3]\<rparr>"

text \<open>
  The same function declared with two inputs and one output, and a hint that gives it
  one input only: \<open>Call\<close> fails on the arity before anything is computed.
\<close>

definition f_arity :: AnnotatedFunction where
  "f_arity = NewFixedHint ''multiHint'' double2 2 1"

definition s_a :: solution where
  "s_a = \<lparr>values = [5, 7, 0, 0], coefficients = coeffs0, solved = [True, True, False, False],
          nbSolved = 2, mHintsFunctions = [UUID f_arity \<mapsto> f_arity]\<rparr>"

definition s_a' :: solution where
  "s_a' = \<lparr>values = [5, 7, 7, 0], coefficients = coeffs0, solved = [True, True, True, False],
          nbSolved = 3, mHintsFunctions = [UUID f_arity \<mapsto> f_arity]\<rparr>"

definition h_one :: Hint where
  "h_one = \<lparr>ID = UUID f_arity, Inputs = [Some [term0 1 1 Secret]], Wires = [2]\<rparr>"

text \<open>The name of \<open>hint.IthBit\<close>, and two fixed hints on it under different arities.\<close>

definition name_IthBit :: string where
  "name_IthBit = ''github.com/consensys/gnark/backend/hint.IthBit''"



text \<open>
  A stand-in for \<open>fr.Element.String\<close> in the examples: the decimal digits of a
  reduced element.
\<close>

fun dec_nat :: "nat \<Rightarrow> string" where
  "dec_nat n =
     (if n < 10 then [''0123456789'' ! n]
      else dec_nat (n div 10) @ [''0123456789'' ! (n mod 10)])"

definition str0 :: "fr \<Rightarrow> string" where
  "str0 x = dec_nat (nat x)"

definition log0 :: LogEntry where
  "log0 = \<lparr>Format = ''%s %s %s%s %s%s'',
           ToResolve = [term0 4 0 Virtual, term0 3 0 Virtual, term0 4 1 Secret,
                        term0 3 1 Public, term0 1 2 Internal]\<rparr>"

section \<open>Auxiliary lemmas\<close>

lemma in_range_nat: "in_range xs i \<Longrightarrow> nat i < length xs"
  by (simp add: in_range_def nat_less_iff)

lemma slice_get_Some_iff:
  "slice_get xs i = Some x \<longleftrightarrow> in_range xs i \<and> xs ! nat i = x"
  by (auto simp: slice_get_def in_range_def)

lemma slice_get_None_iff: "slice_get xs i = None \<longleftrightarrow> \<not> in_range xs i"
  by (auto simp: slice_get_def in_range_def)

lemma fr_Modulus_pos: "1 < fr_Modulus"
  by (simp add: fr_Modulus_def)

lemma fr_Mul_Zero: "fr_Mul fr_Zero x = fr_Zero"
  by (simp add: fr_Mul_def fr_Zero_def)

lemma fr_Mul_One: "fr_valid x \<Longrightarrow> fr_Mul fr_One x = x"
  by (simp add: fr_Mul_def fr_One_def fr_valid_def)

lemma fr_Mul_Two: "fr_Mul fr_Two x = fr_Double x"
  by (simp add: fr_Mul_def fr_Two_def fr_Double_def)

lemma fr_MinusOne_eq: "fr_MinusOne = fr_Modulus - 1"
  by (simp add: fr_MinusOne_def fr_Neg_def fr_One_def)

lemma fr_Mul_MinusOne:
  assumes "fr_valid x"
  shows "fr_Mul fr_MinusOne x = fr_Neg x"
proof (cases "x = 0")
  case True
  then show ?thesis by (simp add: fr_Mul_def fr_Neg_def)
next
  case False
  with assms have r: "0 \<le> fr_Modulus - x" "fr_Modulus - x < fr_Modulus"
    by (simp_all add: fr_valid_def)
  have "(fr_Modulus - 1) * x = fr_Modulus * x - x" by (simp add: algebra_simps)
  then have "((fr_Modulus - 1) * x) mod fr_Modulus = (- x) mod fr_Modulus"
    by (metis mod_mult_self4 add.commute uminus_add_conv_diff)
  also have "\<dots> = (fr_Modulus - x) mod fr_Modulus"
    by (metis mod_add_self1 add.commute uminus_add_conv_diff)
  also have "\<dots> = fr_Modulus - x" using r by (intro mod_pos_pos_trivial)
  finally show ?thesis using False by (simp add: fr_Mul_def fr_MinusOne_eq fr_Neg_def)
qed

lemma count_update_True:
  "i < length bs \<Longrightarrow> \<not> bs ! i \<Longrightarrow>
     length (filter (\<lambda>b. b) (bs[i := True])) = Suc (length (filter (\<lambda>b. b) bs))"
proof (induction bs arbitrary: i)
  case Nil
  then show ?case by simp
next
  case (Cons b bs)
  then show ?case by (cases i) auto
qed

lemma set_sol_Inr:
  assumes "set_sol s i v = Inr s'"
  shows "slice_get (solved s) i = Some False" "in_range (values s) i"
    "values s' = (values s)[nat i := v]" "solved s' = (solved s)[nat i := True]"
    "nbSolved s' = nbSolved s + 1" "coefficients s' = coefficients s"
    "mHintsFunctions s' = mHintsFunctions s"
  using assms by (auto simp: set_sol_def split: option.splits bool.splits if_splits)

lemma newSolution_inv: "newSolution n hs cs = Inr (Inr s) \<Longrightarrow> inv s"
  by (auto simp: newSolution_def inv_def count_solved_def split: if_splits sum.splits)

lemma set_sol_inv:
  assumes "inv s" "set_sol s i v = Inr s'"
  shows "inv s'"
proof -
  note r = set_sol_Inr [OF assms(2)]
  from r(1) have i: "nat i < length (solved s)" "\<not> solved s ! nat i"
    by (auto simp: slice_get_Some_iff in_range_def)
  show ?thesis using assms(1) r(3,4,5) count_update_True [OF i]
    by (simp add: inv_def count_solved_def)
qed

lemma reachable_inv: "reachable s \<Longrightarrow> inv s"
  by (induction rule: reachable.induct) (auto intro: newSolution_inv set_sol_inv)

lemma filter_all_iff: "length (filter P xs) = length xs \<longleftrightarrow> (\<forall>x\<in>set xs. P x)"
  by (metis filter_id_conv length_filter_less nat_neq_iff filter_True)

lemma Equal_loop_eq: "length xs = length ys \<Longrightarrow> Equal_loop xs ys \<longleftrightarrow> xs = ys"
  by (induction xs ys rule: Equal_loop.induct) auto

lemma same_sequence_iff: "same_sequence v o' \<longleftrightarrow> terms v = terms o'"
proof -
  have "terms v = terms o' \<longleftrightarrow>
      length (terms v) = length (terms o') \<and> (\<forall>i<length (terms v). terms v ! i = terms o' ! i)"
    by (rule list_eq_iff_nth_eq)
  then show ?thesis by (simp add: same_sequence_def list_all_iff Ball_def)
qed

lemma reachable_s_new: "reachable s_new"
proof -
  have "newSolution 2 [] coeffs0 = Inr (Inr s_new)"
    by (simp add: newSolution_def newSolution_hints_def s_new_def fr_Zero_def numeral_2_eq_2)
  then show ?thesis by (rule reach_new)
qed

lemma computeTerm_wf:
  assumes "wf_term k s t" "variableVisibility t \<noteq> Virtual"
    "slice_get (solved s) (variableID t) = Some True"
  shows "computeTerm k s t = Inr (term_value k s t)"
proof -
  from assms(1,2) obtain x where x: "slice_get (values s) (variableID t) = Some x"
    by (auto simp: wf_term_def slice_get_def in_range_def)
  from assms(1,2) have c: "reserved k (coeffID t) \<or> (\<exists>c. slice_get (coefficients s) (coeffID t) = Some c)"
    by (auto simp: wf_term_def slice_get_def in_range_def)
  have "\<exists>v. computeTerm k s t = Inr v"
    using assms(3) x c by (auto simp: computeTerm_def Unpack_def reserved_def)
  then show ?thesis using assms(2) by (auto simp: term_value_def)
qed

lemma eval_terms_solved:
  assumes "\<forall>t\<in>set ts. wf_term k s t \<and> \<not> unsolved_term s t"
  shows "eval_terms k s ts acc lam
       = Inr (Inr (acc + sum_list (map (term_value k s) ts), last (lam # map (term_value k s) ts)))"
  using assms
proof (induction ts arbitrary: acc lam)
  case Nil
  then show ?case by simp
next
  case (Cons t ts)
  then have wf: "wf_term k s t" and ns: "\<not> unsolved_term s t"
    and rest: "\<forall>t\<in>set ts. wf_term k s t \<and> \<not> unsolved_term s t" by simp_all
  note IH = Cons.IH [OF rest]
  show ?case
  proof (cases "variableVisibility t = Virtual")
    case True
    with wf obtain c where c: "slice_get (coefficients s) (coeffID t) = Some c"
      by (auto simp: wf_term_def slice_get_def in_range_def)
    then have tv: "term_value k s t = c" using True by (simp add: term_value_def)
    show ?thesis using True c tv IH
      by (simp add: Unpack_def fr_ToBigIntRegular_def add.assoc Let_def)
  next
    case False
    with wf ns have sv: "slice_get (solved s) (variableID t) = Some True"
      by (auto simp: wf_term_def unsolved_term_def slice_get_def in_range_def)
    note ct = computeTerm_wf [OF wf False sv]
    show ?thesis using False sv ct IH
      by (simp add: Unpack_def fr_ToBigIntRegular_def add.assoc Let_def)
  qed
qed

lemma eval_terms_unsolved:
  assumes "\<forall>t\<in>set ts. wf_term k s t" "\<exists>t\<in>set ts. unsolved_term s t"
  shows "eval_terms k s ts acc lam = Inr (Inl WireNotInstantiated)"
  using assms
proof (induction ts arbitrary: acc lam)
  case Nil
  then show ?case by simp
next
  case (Cons t ts)
  then have wf: "wf_term k s t" and rest: "\<forall>t\<in>set ts. wf_term k s t" by simp_all
  show ?case
  proof (cases "unsolved_term s t")
    case True
    then show ?thesis by (simp add: unsolved_term_def Unpack_def)
  next
    case False
    with Cons.prems(2) have ex: "\<exists>t\<in>set ts. unsolved_term s t" by simp
    note IH = Cons.IH [OF rest ex]
    show ?thesis
    proof (cases "variableVisibility t = Virtual")
      case True
      with wf obtain c where c: "slice_get (coefficients s) (coeffID t) = Some c"
        by (auto simp: wf_term_def slice_get_def in_range_def)
      show ?thesis using True c IH by (simp add: Unpack_def Let_def)
    next
      case nv: False
      with wf \<open>\<not> unsolved_term s t\<close> have sv: "slice_get (solved s) (variableID t) = Some True"
        by (auto simp: wf_term_def unsolved_term_def slice_get_def in_range_def)
      note ct = computeTerm_wf [OF wf nv sv]
      show ?thesis using nv sv ct IH by (simp add: Unpack_def Let_def)
    qed
  qed
qed

lemma eval_inputs_solved:
  assumes "\<forall>lc\<in>set lcs. \<forall>t\<in>set (terms lc). wf_term k s t \<and> \<not> unsolved_term s t"
  shows "\<exists>lam'. eval_inputs k s lcs lam = Inr (Inr (map (input_value k s) lcs, lam'))"
  using assms
proof (induction lcs arbitrary: lam)
  case Nil
  then show ?case by simp
next
  case (Cons lc lcs)
  then have hd: "\<forall>t\<in>set (terms lc). wf_term k s t \<and> \<not> unsolved_term s t"
    and rest: "\<forall>lc\<in>set lcs. \<forall>t\<in>set (terms lc). wf_term k s t \<and> \<not> unsolved_term s t"
    by simp_all
  from Cons.IH [OF rest] obtain lam' where
    "eval_inputs k s lcs (last (lam # map (term_value k s) (terms lc)))
       = Inr (Inr (map (input_value k s) lcs, lam'))" by blast
  then show ?case using eval_terms_solved [OF hd, of 0 lam]
    by (simp add: input_value_def)
qed

lemma eval_inputs_unsolved:
  assumes "\<forall>lc\<in>set lcs. \<forall>t\<in>set (terms lc). wf_term k s t"
    "\<exists>lc\<in>set lcs. \<exists>t\<in>set (terms lc). unsolved_term s t"
  shows "eval_inputs k s lcs lam = Inr (Inl WireNotInstantiated)"
  using assms
proof (induction lcs arbitrary: lam)
  case Nil
  then show ?case by simp
next
  case (Cons lc lcs)
  then have hd: "\<forall>t\<in>set (terms lc). wf_term k s t"
    and rest: "\<forall>lc\<in>set lcs. \<forall>t\<in>set (terms lc). wf_term k s t" by simp_all
  show ?case
  proof (cases "\<exists>t\<in>set (terms lc). unsolved_term s t")
    case True
    then show ?thesis using eval_terms_unsolved [OF hd, of 0 lam] by simp
  next
    case False
    with hd have ok: "\<forall>t\<in>set (terms lc). wf_term k s t \<and> \<not> unsolved_term s t" by blast
    from False Cons.prems(2) have ex: "\<exists>lc\<in>set lcs. \<exists>t\<in>set (terms lc). unsolved_term s t"
      by simp
    show ?thesis using eval_terms_solved [OF ok, of 0 lam] Cons.IH [OF rest ex] by simp
  qed
qed

lemma eval_inputs_length:
  "eval_inputs k s lcs lam = Inr (Inr (xs, lam')) \<Longrightarrow> length xs = length lcs"
  by (induction lcs arbitrary: lam xs lam')
     (auto split: sum.splits prod.splits)

lemma call_hint_length: "call_hint f ins outs = (err, outs') \<Longrightarrow> length outs' = length outs"
  by (auto simp: call_hint_def split: prod.splits)


lemma slice_get_update:
  "slice_get (xs[n := v]) j = (if in_range xs j \<and> nat j = n then Some v else slice_get xs j)"
  by (auto simp: slice_get_def in_range_def nat_less_iff)

lemma set_sol_kept:
  assumes "set_sol s i v = Inr s'" "slice_get (solved s) j = Some True"
  shows "slice_get (solved s') j = Some True" "slice_get (values s') j = slice_get (values s) j"
proof -
  note r = set_sol_Inr [OF assms(1)]
  from r(1) assms(2) have ne: "j \<noteq> i" by auto
  from assms(2) have j: "0 \<le> j" by (simp add: slice_get_Some_iff in_range_def)
  from r(2) have i: "0 \<le> i" by (simp add: in_range_def)
  from ne i j have n: "nat j \<noteq> nat i" by simp
  show "slice_get (solved s') j = Some True"
    using assms(2) n by (simp add: r(4) slice_get_update)
  show "slice_get (values s') j = slice_get (values s) j"
    using n by (simp add: r(3) slice_get_update)
qed

lemma set_sol_frame:
  assumes "set_sol s i v = Inr s'" "j \<noteq> i"
  shows "slice_get (values s') j = slice_get (values s) j"
    "slice_get (solved s') j = slice_get (solved s) j"
proof -
  note r = set_sol_Inr [OF assms(1)]
  from r(2) have i: "0 \<le> i" by (simp add: in_range_def)
  have n: "in_range xs j \<Longrightarrow> nat j \<noteq> nat i" for xs :: "'a list"
    using assms(2) i by (auto simp: in_range_def)
  show "slice_get (values s') j = slice_get (values s) j"
    using n [of "values s"] by (auto simp: r(3) slice_get_update)
  show "slice_get (solved s') j = slice_get (solved s) j"
    using n [of "solved s"] by (auto simp: r(4) slice_get_update)
qed

lemma set_sol_written:
  assumes "set_sol s i v = Inr s'"
  shows "slice_get (solved s') i = Some True" "slice_get (values s') i = Some v"
proof -
  note r = set_sol_Inr [OF assms]
  from r(1) have ir: "in_range (solved s) i" by (simp add: slice_get_Some_iff)
  show "slice_get (solved s') i = Some True" using ir by (simp add: r(4) slice_get_update)
  show "slice_get (values s') i = Some v" using r(2) by (simp add: r(3) slice_get_update)
qed

lemma set_outputs_count:
  "set_outputs s ws xs = Inr s' \<Longrightarrow>
     length xs \<le> length ws \<and> nbSolved s' = nbSolved s + int (length xs)
     \<and> coefficients s' = coefficients s \<and> mHintsFunctions s' = mHintsFunctions s"
proof (induction s ws xs rule: set_outputs.induct)
  case (1 s ws)
  then show ?case by simp
next
  case (2 s x xs)
  then show ?case by simp
next
  case (3 s w ws x xs)
  from "3.prems" obtain s1 where s1: "set_sol s w (fr_SetBigInt x) = Inr s1"
    and rest: "set_outputs s1 ws xs = Inr s'" by (auto split: sum.splits)
  from "3.IH" [OF s1 rest] set_sol_Inr(5,6,7) [OF s1] show ?case by simp
qed

lemma set_outputs_kept:
  "set_outputs s ws xs = Inr s' \<Longrightarrow> slice_get (solved s) j = Some True \<Longrightarrow>
     slice_get (solved s') j = Some True \<and> slice_get (values s') j = slice_get (values s) j"
proof (induction s ws xs rule: set_outputs.induct)
  case (1 s ws)
  then show ?case by simp
next
  case (2 s x xs)
  then show ?case by simp
next
  case (3 s w ws x xs)
  from "3.prems"(1) obtain s1 where s1: "set_sol s w (fr_SetBigInt x) = Inr s1"
    and rest: "set_outputs s1 ws xs = Inr s'" by (auto split: sum.splits)
  note k = set_sol_kept [OF s1 "3.prems"(2)]
  from "3.IH" [OF s1 rest k(1)] k(2) show ?case by simp
qed

lemma set_outputs_frame:
  "set_outputs s ws xs = Inr s' \<Longrightarrow> j \<notin> set (take (length xs) ws) \<Longrightarrow>
     slice_get (values s') j = slice_get (values s) j
     \<and> slice_get (solved s') j = slice_get (solved s) j"
proof (induction s ws xs rule: set_outputs.induct)
  case (1 s ws)
  then show ?case by simp
next
  case (2 s x xs)
  then show ?case by simp
next
  case (3 s w ws x xs)
  from "3.prems"(1) obtain s1 where s1: "set_sol s w (fr_SetBigInt x) = Inr s1"
    and rest: "set_outputs s1 ws xs = Inr s'" by (auto split: sum.splits)
  from "3.prems"(2) have ne: "j \<noteq> w" and nin: "j \<notin> set (take (length xs) ws)" by simp_all
  from "3.IH" [OF s1 rest nin] set_sol_frame [OF s1 ne] show ?case by simp
qed

lemma set_outputs_written:
  "set_outputs s ws xs = Inr s' \<Longrightarrow> i < length xs \<Longrightarrow>
     slice_get (solved s') (ws ! i) = Some True
     \<and> slice_get (values s') (ws ! i) = Some (fr_SetBigInt (xs ! i))"
proof (induction s ws xs arbitrary: i rule: set_outputs.induct)
  case (1 s ws)
  then show ?case by simp
next
  case (2 s x xs)
  then show ?case by simp
next
  case (3 s w ws x xs)
  from "3.prems"(1) obtain s1 where s1: "set_sol s w (fr_SetBigInt x) = Inr s1"
    and rest: "set_outputs s1 ws xs = Inr s'" by (auto split: sum.splits)
  show ?case
  proof (cases i)
    case 0
    note w = set_sol_written [OF s1]
    from set_outputs_kept [OF rest w(1)] w(2) 0 show ?thesis by simp
  next
    case (Suc i')
    with "3.prems"(2) have "i' < length xs" by simp
    from "3.IH" [OF s1 rest this] Suc show ?thesis by simp
  qed
qed


lemma eval_inputs_h_multi: "eval_inputs k0 s_h (Inputs h_multi) lam = Inr (Inr ([5, 7], 7))"
  by (simp add: h_multi_def s_h_def terms_def term0_def Unpack_def slice_get_def k0_def
      computeTerm_def fr_ToBigIntRegular_def)

lemma solveWithHint_h_multi: "solveWithHint k0 pool0 s_h 2 h_multi = Inr (None, s_h')"
proof -
  have c: "call_hint f_multi [5, 7] [7, 0] = (None, [10, 14])"
    by (simp add: call_hint_def f_multi_def NewFixedHint_def as_AnnotatedFunction_def
        fixed_Call_def double2_def)
  have m: "[5 mod fr_Modulus, 7 mod fr_Modulus] = [5, 7]" by (simp add: fr_Modulus_def)
  have so: "set_outputs s_h [2, 3] [10, 14] = Inr s_h'"
    by (simp add: set_sol_def s_h_def s_h'_def slice_get_def in_range_def fr_SetBigInt_def
        fr_Modulus_def numeral_2_eq_2 numeral_3_eq_3)
  have n: "TotalOutputs f_multi 2 = 2"
    by (simp add: f_multi_def NewFixedHint_def as_AnnotatedFunction_def fixed_TotalOutputs_def)
  have u: "slice_get (solved s_h) 2 = Some False" by (simp add: s_h_def slice_get_def)
  have f: "mHintsFunctions s_h (ID h_multi) = Some f_multi" by (simp add: s_h_def h_multi_def)
  have w: "Wires h_multi = [2, 3]" by (simp add: h_multi_def)
  have p: "map pool0 [Suc 0..<2] = [0]" by (simp add: pool0_def upt_rec)
  show ?thesis
    by (simp add: solveWithHint_def u f eval_inputs_h_multi n m p c w so
        del: set_outputs.simps)
qed


lemma solveWithHint_h_one: "solveWithHint k0 pool0 s_a 2 h_one = Inr (Some (InputArity 1 2), s_a')"
proof -
  have e: "eval_inputs k0 s_a (Inputs h_one) (pool0 0) = Inr (Inr ([7], 7))"
    by (simp add: h_one_def s_a_def terms_def term0_def Unpack_def slice_get_def k0_def
        computeTerm_def fr_ToBigIntRegular_def)
  have c: "call_hint f_arity [7] [7] = (Some (InputArity 1 2), [7])"
    by (simp add: call_hint_def f_arity_def NewFixedHint_def as_AnnotatedFunction_def
        fixed_Call_def)
  have m: "[7 mod fr_Modulus] = [7]" by (simp add: fr_Modulus_def)
  have so: "set_outputs s_a [2] [7] = Inr s_a'"
    by (simp add: set_sol_def s_a_def s_a'_def slice_get_def in_range_def fr_SetBigInt_def
        fr_Modulus_def numeral_2_eq_2)
  have n: "TotalOutputs f_arity 1 = 1"
    by (simp add: f_arity_def NewFixedHint_def as_AnnotatedFunction_def fixed_TotalOutputs_def)
  have u: "slice_get (solved s_a) 2 = Some False" by (simp add: s_a_def slice_get_def)
  have f: "mHintsFunctions s_a (ID h_one) = Some f_arity" by (simp add: s_a_def h_one_def)
  have w: "Wires h_one = [2]" by (simp add: h_one_def)
  show ?thesis
    by (simp add: solveWithHint_def u f e n m c w so del: set_outputs.simps)
qed

lemma wf_h_multi: "\<forall>lc\<in>set (Inputs h_multi). \<forall>t\<in>set (terms lc). wf_term k0 s_h t"
  by (simp add: h_multi_def terms_def wf_term_def term0_def s_h_def in_range_def k0_def
      reserved_def)

lemma wf_h_early: "\<forall>lc\<in>set (Inputs h_early). \<forall>t\<in>set (terms lc). wf_term k0 s_h t"
  by (simp add: h_early_def terms_def wf_term_def term0_def s_h_def in_range_def k0_def
      reserved_def)

lemma fnv_prime32_inverse: "fnv_prime32 * 899433627 = 1"
  by (simp add: fnv_prime32_def)

lemma fnv_mult_inj: "x * fnv_prime32 = y * fnv_prime32 \<Longrightarrow> x = y"
proof -
  assume "x * fnv_prime32 = y * fnv_prime32"
  then have "x * (fnv_prime32 * 899433627) = y * (fnv_prime32 * 899433627)"
    by (simp only: mult.assoc [symmetric])
  then show ?thesis by (simp only: fnv_prime32_inverse mult_1_right)
qed

lemma xor_cancel_l: "(h :: 32 word) XOR x = h XOR y \<Longrightarrow> x = y"
  by (metis bit.xor_left_self)

lemma xor_cancel_r: "(x :: 32 word) XOR c = y XOR c \<Longrightarrow> x = y"
  by (metis bit.xor_left_self xor.commute)

lemma ucast_8_32_inj: "(ucast (b :: 8 word) :: 32 word) = ucast b' \<Longrightarrow> b = b'"
proof -
  assume a: "(ucast b :: 32 word) = ucast b'"
  have "b = ucast (ucast b :: 32 word)" by (simp add: ucast_up_ucast_id is_up)
  also have "\<dots> = ucast (ucast b' :: 32 word)" by (simp only: a)
  also have "\<dots> = b'" by (simp add: ucast_up_ucast_id is_up)
  finally show ?thesis .
qed

lemma fnv_step_inj_state: "fnv_step h b = fnv_step h' b \<Longrightarrow> h = h'"
  unfolding fnv_step_def by (blast dest: fnv_mult_inj xor_cancel_r)

lemma fnv_step_inj_byte: "fnv_step h b = fnv_step h b' \<Longrightarrow> b = b'"
  unfolding fnv_step_def by (blast dest: fnv_mult_inj xor_cancel_l ucast_8_32_inj)

lemma fnv_Write_inj_state: "fnv_Write h bs = fnv_Write h' bs \<Longrightarrow> h = h'"
  unfolding fnv_Write_def
  by (induction bs arbitrary: h h') (auto dest: fnv_step_inj_state)

lemma differences_0: "length xs = length ys \<Longrightarrow> differences xs ys = 0 \<Longrightarrow> xs = ys"
proof (induction xs ys rule: list_induct2)
  case Nil
  then show ?case by simp
next
  case (Cons x xs y ys)
  then show ?case by (cases "x = y") (simp_all add: differences_def)
qed

lemma fnv_Write_one_difference:
  "length xs = length ys \<Longrightarrow> differences xs ys = 1 \<Longrightarrow> fnv_Write h xs \<noteq> fnv_Write h ys"
proof (induction xs ys arbitrary: h rule: list_induct2)
  case Nil
  then show ?case by (simp add: differences_def)
next
  case (Cons x xs y ys)
  show ?case
  proof (cases "x = y")
    case True
    with Cons.prems have "differences xs ys = 1" by (simp add: differences_def)
    from Cons.IH [OF this] True show ?thesis by (simp add: fnv_Write_def)
  next
    case False
    with Cons.prems have "differences xs ys = 0" by (simp add: differences_def)
    from differences_0 [OF Cons.hyps this] have e: "xs = ys" .
    from False have "fnv_step h x \<noteq> fnv_step h y" by (blast dest: fnv_step_inj_byte)
    then have "fnv_Write (fnv_step h x) ys \<noteq> fnv_Write (fnv_step h y) ys"
      by (blast dest: fnv_Write_inj_state)
    then show ?thesis using e by (simp add: fnv_Write_def)
  qed
qed

lemma length_PutUint64: "length (PutUint64 w) = 8"
  by (simp add: PutUint64_def)

lemma fixed_UUID_arity_bytes:
  "fixed_UUID h = fnv_Write (fnv_Write fnv_offset32 (bytes_of (fn_name h)))
                    (arity_bytes (nIn h) (nOut h))"
  by (simp add: fixed_UUID_def arity_bytes_def fnv_Write_def)

lemma UUID_NewFixedHint:
  "UUID (NewFixedHint name f a b)
     = fnv_Write (fnv_Write fnv_offset32 (bytes_of name)) (arity_bytes a b)"
  by (simp add: NewFixedHint_def as_AnnotatedFunction_def fixed_UUID_arity_bytes)




lemma dec_nat_digit: "n < 10 \<Longrightarrow> dec_nat n = [''0123456789'' ! n]"
  by simp

lemma logValue_step:
  assumes d: "t \<noteq> TermDelimitor k" and wf: "wf_log_term k s t"
  shows "logValue_loop k str s (t # ts) False ev mv acc
       = logValue_loop k str s ts False ev mv (acc @ render_term k str s t)"
proof (cases "variableVisibility t = Virtual")
  case True
  show ?thesis
  proof (cases "coeffID t = CoeffIdMinusOne k")
    case m: True
    then show ?thesis using d True by (simp add: Unpack_def render_term_def)
  next
    case False
    with wf True have "slice_get (coefficients s) (coeffID t)
        = Some (coefficients s ! nat (coeffID t))"
      by (simp add: wf_log_term_def slice_get_def in_range_def)
    then show ?thesis using d True False by (simp add: Unpack_def render_term_def)
  qed
next
  case False
  with wf have sv: "slice_get (solved s) (variableID t) = Some (solved s ! nat (variableID t))"
    and vl: "slice_get (values s) (variableID t) = Some (values s ! nat (variableID t))"
    by (simp_all add: wf_log_term_def slice_get_def in_range_def)
  show ?thesis
  proof (cases "coeffID t = CoeffIdMinusOne k \<or> coeffID t = CoeffIdOne k")
    case True
    then show ?thesis using d False sv vl
      by (cases "solved s ! nat (variableID t)") (auto simp: Unpack_def render_term_def)
  next
    case nr: False
    with wf False have "slice_get (coefficients s) (coeffID t)
        = Some (coefficients s ! nat (coeffID t))"
      by (simp add: wf_log_term_def slice_get_def in_range_def)
    then show ?thesis using d False nr sv vl
      by (cases "solved s ! nat (variableID t)") (auto simp: Unpack_def render_term_def)
  qed
qed

lemma logValue_loop_plain:
  assumes "\<forall>t\<in>set ts. t \<noteq> TermDelimitor k \<and> wf_log_term k s t"
  shows "logValue_loop k str s ts False ev mv acc
       = Inr (acc @ concat (map (render_term k str s) ts))"
  using assms
proof (induction ts arbitrary: acc)
  case Nil
  then show ?case by simp
next
  case (Cons t ts)
  then have d: "t \<noteq> TermDelimitor k" and wf: "wf_log_term k s t"
    and rest: "\<forall>t\<in>set ts. t \<noteq> TermDelimitor k \<and> wf_log_term k s t" by simp_all
  show ?case
    by (simp only: logValue_step [OF d wf] Cons.IH [OF rest] list.map concat.simps append_assoc)
qed

section \<open>Properties of the specification\<close>

text \<open>
  C2.  For a term whose coefficient ID is one of the reserved ones and whose wire is
  solved, \<open>computeTerm\<close> returns what the general field multiplication of the literal
  field element (0, 1, 2, -1) with the value of the wire gives.  The reserved IDs are
  pairwise different, and the value of the wire is a reduced field element.
\<close>

theorem computeTerm_reserved:
  assumes d: "distinct [CoeffIdZero k, CoeffIdOne k, CoeffIdTwo k, CoeffIdMinusOne k]"
    and sv: "slice_get (solved s) (variableID t) = Some True"
    and vl: "slice_get (values s) (variableID t) = Some x"
    and x: "fr_valid x"
  shows "(coeffID t = CoeffIdZero k \<longrightarrow> computeTerm k s t = Inr (fr_Mul fr_Zero x))
       \<and> (coeffID t = CoeffIdOne k \<longrightarrow> computeTerm k s t = Inr (fr_Mul fr_One x))
       \<and> (coeffID t = CoeffIdTwo k \<longrightarrow> computeTerm k s t = Inr (fr_Mul fr_Two x))
       \<and> (coeffID t = CoeffIdMinusOne k \<longrightarrow> computeTerm k s t = Inr (fr_Mul fr_MinusOne x))"
  using d sv vl
  by (simp add: computeTerm_def Unpack_def fr_Mul_Zero fr_Mul_One [OF x] fr_Mul_Two
      fr_Mul_MinusOne [OF x])

theorem computeTerm_reserved_witness:
  "distinct [CoeffIdZero k0, CoeffIdOne k0, CoeffIdTwo k0, CoeffIdMinusOne k0]
   \<and> slice_get (solved s0) 1 = Some True \<and> slice_get (values s0) 1 = Some 7 \<and> fr_valid 7
   \<and> computeTerm k0 s0 (term0 0 1 Public) = Inr (fr_Mul fr_Zero 7)
   \<and> computeTerm k0 s0 (term0 1 1 Public) = Inr (fr_Mul fr_One 7)
   \<and> computeTerm k0 s0 (term0 2 1 Public) = Inr (fr_Mul fr_Two 7)
   \<and> computeTerm k0 s0 (term0 3 1 Public) = Inr (fr_Mul fr_MinusOne 7)"
proof -
  have d: "distinct [CoeffIdZero k0, CoeffIdOne k0, CoeffIdTwo k0, CoeffIdMinusOne k0]"
    by (simp add: k0_def)
  have sv: "slice_get (solved s0) 1 = Some True" by (simp add: s0_def slice_get_def)
  have vl: "slice_get (values s0) 1 = Some 7" by (simp add: s0_def slice_get_def)
  have x: "fr_valid 7" by (simp add: fr_valid_def fr_Modulus_def)
  have v: "variableID (term0 c 1 Public) = 1" for c by (simp add: term0_def)
  have c: "coeffID (term0 0 1 Public) = CoeffIdZero k0" "coeffID (term0 1 1 Public) = CoeffIdOne k0"
    "coeffID (term0 2 1 Public) = CoeffIdTwo k0" "coeffID (term0 3 1 Public) = CoeffIdMinusOne k0"
    by (simp_all add: term0_def k0_def)
  note t = computeTerm_reserved [where k = k0 and s = s0 and x = 7, OF d]
  have "computeTerm k0 s0 (term0 0 1 Public) = Inr (fr_Mul fr_Zero 7)"
    using t [of "term0 0 1 Public"] sv vl x c(1) unfolding v by blast
  moreover have "computeTerm k0 s0 (term0 1 1 Public) = Inr (fr_Mul fr_One 7)"
    using t [of "term0 1 1 Public"] sv vl x c(2) unfolding v by blast
  moreover have "computeTerm k0 s0 (term0 2 1 Public) = Inr (fr_Mul fr_Two 7)"
    using t [of "term0 2 1 Public"] sv vl x c(3) unfolding v by blast
  moreover have "computeTerm k0 s0 (term0 3 1 Public) = Inr (fr_Mul fr_MinusOne 7)"
    using t [of "term0 3 1 Public"] sv vl x c(4) unfolding v by blast
  ultimately show ?thesis using d sv vl x by blast
qed

text \<open>
  C3.  With the reserved zero constant being 0, the value the code compares with:
  \<open>computeTerm\<close> raises its panic for an unsolved wire exactly when the coefficient
  ID is not the zero constant and the wire is marked unsolved; with the zero constant
  it returns the zero element whatever the solution holds, without reading the wire;
  and for a term whose IDs are within the arrays no other panic occurs.
\<close>

theorem computeTerm_panics:
  assumes z: "CoeffIdZero k = 0"
  shows "(computeTerm k s t = Inl UnsolvedWireTerm
            \<longleftrightarrow> coeffID t \<noteq> CoeffIdZero k \<and> slice_get (solved s) (variableID t) = Some False)
       \<and> (coeffID t = CoeffIdZero k \<longrightarrow> computeTerm k s t = Inr fr_Zero)
       \<and> (in_range (solved s) (variableID t) \<and> in_range (values s) (variableID t)
            \<and> (reserved k (coeffID t) \<or> in_range (coefficients s) (coeffID t))
          \<longrightarrow> ((\<exists>p. computeTerm k s t = Inl p)
            \<longleftrightarrow> coeffID t \<noteq> CoeffIdZero k \<and> slice_get (solved s) (variableID t) = Some False))"
proof (intro conjI impI)
  show "computeTerm k s t = Inl UnsolvedWireTerm
     \<longleftrightarrow> coeffID t \<noteq> CoeffIdZero k \<and> slice_get (solved s) (variableID t) = Some False"
    using z by (auto simp: computeTerm_def Unpack_def split: option.splits)
next
  assume "coeffID t = CoeffIdZero k"
  then show "computeTerm k s t = Inr fr_Zero"
    using z by (simp add: computeTerm_def Unpack_def)
next
  assume wf: "in_range (solved s) (variableID t) \<and> in_range (values s) (variableID t)
            \<and> (reserved k (coeffID t) \<or> in_range (coefficients s) (coeffID t))"
  then obtain b x where b: "slice_get (solved s) (variableID t) = Some b"
    and x: "slice_get (values s) (variableID t) = Some x"
    by (auto simp: slice_get_def in_range_def)
  from wf have c: "reserved k (coeffID t) \<or> (\<exists>c. slice_get (coefficients s) (coeffID t) = Some c)"
    by (auto simp: slice_get_def in_range_def)
  show "(\<exists>p. computeTerm k s t = Inl p)
     \<longleftrightarrow> coeffID t \<noteq> CoeffIdZero k \<and> slice_get (solved s) (variableID t) = Some False"
    using z b x c by (cases b) (auto simp: computeTerm_def Unpack_def reserved_def)
qed

theorem computeTerm_panics_witness:
  "CoeffIdZero k0 = 0
   \<and> computeTerm k0 s0 (term0 4 2 Secret) = Inl UnsolvedWireTerm
   \<and> computeTerm k0 s0 (term0 0 2 Secret) = Inr fr_Zero
   \<and> computeTerm k0 s0 (term0 0 9 Secret) = Inr fr_Zero
   \<and> in_range (solved s0) 1 \<and> in_range (values s0) 1 \<and> in_range (coefficients s0) 4
   \<and> \<not> (\<exists>p. computeTerm k0 s0 (term0 4 1 Secret) = Inl p)"
proof -
  have z: "CoeffIdZero k0 = 0" by (simp add: k0_def)
  have c: "coeffID (term0 4 w Secret) \<noteq> CoeffIdZero k0" "coeffID (term0 0 w Secret) = CoeffIdZero k0"
    for w by (simp_all add: term0_def k0_def)
  have u: "slice_get (solved s0) (variableID (term0 4 2 Secret)) = Some False"
    by (simp add: term0_def s0_def slice_get_def)
  have u': "slice_get (solved s0) (variableID (term0 4 1 Secret)) \<noteq> Some False"
    by (simp add: term0_def s0_def slice_get_def)
  have r: "in_range (solved s0) 1" "in_range (values s0) 1" "in_range (coefficients s0) 4"
    by (simp_all add: s0_def in_range_def coeffs0_def)
  have r': "in_range (solved s0) (variableID (term0 4 1 Secret))"
    "in_range (values s0) (variableID (term0 4 1 Secret))"
    "in_range (coefficients s0) (coeffID (term0 4 1 Secret))"
    using r by (simp_all add: term0_def)
  note t = computeTerm_panics [where k = k0 and s = s0, OF z]
  have "computeTerm k0 s0 (term0 4 2 Secret) = Inl UnsolvedWireTerm"
    using t [of "term0 4 2 Secret"] c(1) u by blast
  moreover have "computeTerm k0 s0 (term0 0 2 Secret) = Inr fr_Zero"
    using t [of "term0 0 2 Secret"] c(2) by blast
  moreover have "computeTerm k0 s0 (term0 0 9 Secret) = Inr fr_Zero"
    using t [of "term0 0 9 Secret"] c(2) by blast
  moreover have "\<not> (\<exists>p. computeTerm k0 s0 (term0 4 1 Secret) = Inl p)"
    using t [of "term0 4 1 Secret"] r' u' by blast
  ultimately show ?thesis using z r by blast
qed

text \<open>
  C4.  \<open>set\<close> on a wire already solved panics; a \<open>set\<close> that returns found the wire
  unsolved, stores the value, marks the wire solved and adds one to the solved count.
  So in every solution built by \<open>newSolution\<close> and \<open>set\<close> the solved count is the
  number of wires marked solved, and \<open>isValid\<close> holds iff the solved count is the
  number of wires, which there means that every wire is marked solved.
\<close>

theorem set_sol_once:
  "(slice_get (solved s) i = Some True \<longrightarrow> set_sol s i v = Inl SolvingSameWireTwice)
 \<and> (\<forall>s'. set_sol s i v = Inr s' \<longrightarrow>
        slice_get (solved s) i = Some False
      \<and> values s' = (values s)[nat i := v] \<and> solved s' = (solved s)[nat i := True]
      \<and> slice_get (values s') i = Some v \<and> slice_get (solved s') i = Some True
      \<and> nbSolved s' = nbSolved s + 1)
 \<and> (reachable s \<longrightarrow> nbSolved s = count_solved s)
 \<and> (isValid s \<longleftrightarrow> nbSolved s = int (length (values s)))
 \<and> (reachable s \<longrightarrow> (isValid s \<longleftrightarrow> (\<forall>b\<in>set (solved s). b)))"
proof (intro conjI allI impI)
  assume "slice_get (solved s) i = Some True"
  then show "set_sol s i v = Inl SolvingSameWireTwice" by (simp add: set_sol_def)
next
  fix s' assume a: "set_sol s i v = Inr s'"
  note r = set_sol_Inr [OF a]
  show "slice_get (solved s) i = Some False" by (rule r)
  show "values s' = (values s)[nat i := v]" by (rule r)
  show "solved s' = (solved s)[nat i := True]" by (rule r)
  show "nbSolved s' = nbSolved s + 1" by (rule r)
  from r(2) have "nat i < length (values s)" by (rule in_range_nat)
  then show "slice_get (values s') i = Some v"
    using r(2,3) by (simp add: slice_get_def in_range_def)
  from r(1) have ir: "in_range (solved s) i" by (simp add: slice_get_Some_iff)
  then show "slice_get (solved s') i = Some True"
    using r(4) in_range_nat [OF ir] by (simp add: slice_get_def in_range_def)
next
  assume "reachable s"
  then show "nbSolved s = count_solved s" using reachable_inv by (simp add: inv_def)
next
  show "isValid s \<longleftrightarrow> nbSolved s = int (length (values s))" by (simp add: isValid_def)
next
  assume "reachable s"
  then have "inv s" by (rule reachable_inv)
  then show "isValid s \<longleftrightarrow> (\<forall>b\<in>set (solved s). b)"
    using filter_all_iff [of "\<lambda>b. b" "solved s"]
    by (simp add: isValid_def inv_def count_solved_def)
qed

theorem set_sol_once_witness:
  "reachable s_new \<and> set_sol s_new 0 5 = Inr s_set
   \<and> slice_get (solved s_new) 0 = Some False
   \<and> slice_get (values s_set) 0 = Some 5 \<and> slice_get (solved s_set) 0 = Some True
   \<and> nbSolved s_set = nbSolved s_new + 1
   \<and> nbSolved s_new = count_solved s_new \<and> \<not> isValid s_new
   \<and> set_sol s_set 0 6 = Inl SolvingSameWireTwice"
proof -
  have a: "set_sol s_new 0 5 = Inr s_set"
    by (simp add: set_sol_def s_new_def s_set_def slice_get_def in_range_def)
  have c: "\<not> (\<forall>b\<in>set (solved s_new). b)" by (simp add: s_new_def)
  note t1 = set_sol_once [of s_new 0 5] and t2 = set_sol_once [of s_set 0 6]
  have p: "slice_get (solved s_new) 0 = Some False \<and> slice_get (values s_set) 0 = Some 5
      \<and> slice_get (solved s_set) 0 = Some True \<and> nbSolved s_set = nbSolved s_new + 1"
    using t1 a by blast
  then have b: "slice_get (solved s_set) 0 = Some True" by blast
  have q: "nbSolved s_new = count_solved s_new \<and> \<not> isValid s_new"
    using t1 reachable_s_new c by blast
  have "set_sol s_set 0 6 = Inl SolvingSameWireTwice"
    using t2 b by blast
  then show ?thesis using a p q reachable_s_new by blast
qed

text \<open>
  C8.  When the number of inputs is not the declared input arity, or the number of
  results is not the declared output arity, \<open>Call\<close> of a hint built by \<open>NewFixedHint\<close>
  returns the arity error and leaves the results as they are, whatever the wrapped
  function is: the function does not run.  When both lengths match, \<open>Call\<close> is the
  wrapped function.
\<close>

theorem fixed_Call_arity:
  "(int (length inputs) \<noteq> n_in \<longrightarrow>
       Call (NewFixedHint name f n_in n_out) c inputs res
         = (Some (InputArity (int (length inputs)) n_in), res))
 \<and> (int (length inputs) = n_in \<and> int (length res) \<noteq> n_out \<longrightarrow>
       Call (NewFixedHint name f n_in n_out) c inputs res
         = (Some (ResultArity (int (length res)) n_out), res))
 \<and> (int (length inputs) \<noteq> n_in \<or> int (length res) \<noteq> n_out \<longrightarrow>
       Call (NewFixedHint name f n_in n_out) c inputs res
         = Call (NewFixedHint name g n_in n_out) c inputs res)
 \<and> (int (length inputs) = n_in \<and> int (length res) = n_out \<longrightarrow>
       Call (NewFixedHint name f n_in n_out) c inputs res = f c inputs res)"
  by (simp add: NewFixedHint_def as_AnnotatedFunction_def fixed_Call_def)

theorem fixed_Call_arity_witness:
  "Call (NewFixedHint ''multiHint'' double2 2 2) BN254 [5] [0, 0] = (Some (InputArity 1 2), [0, 0])
   \<and> Call (NewFixedHint ''multiHint'' double2 2 2) BN254 [5, 7] [0] = (Some (ResultArity 1 2), [0])
   \<and> Call (NewFixedHint ''multiHint'' double2 2 2) BN254 [5, 7] [0, 0] = (None, [10, 14])"
  using fixed_Call_arity [of "[5]" 2 "''multiHint''" double2 2 BN254 "[0, 0]"]
    fixed_Call_arity [of "[5, 7]" 2 "''multiHint''" double2 2 BN254 "[0]"]
    fixed_Call_arity [of "[5, 7]" 2 "''multiHint''" double2 2 BN254 "[0, 0]"]
  by (simp add: double2_def)

text \<open>
  C9, as the code has it.  \<open>Equal\<close> returns true iff the two linear combinations are
  both \<open>nil\<close> or both not \<open>nil\<close>, have the same length, and hold the same term at
  every position.  Whether they are sorted plays no role.
\<close>

theorem Equal_iff:
  "Equal v o' \<longleftrightarrow> (v = None \<longleftrightarrow> o' = None) \<and> same_sequence v o'"
  unfolding same_sequence_iff
  by (cases "length (terms v) = length (terms o')") (auto simp: Equal_def Len_def Equal_loop_eq)

theorem Equal_iff_witness:
  "Equal (Some [term0 1 0 Public, term0 4 2 Secret]) (Some [term0 1 0 Public, term0 4 2 Secret])
   \<and> \<not> Equal (Some [term0 1 0 Public, term0 4 2 Secret]) (Some [term0 1 0 Public, term0 4 1 Secret])
   \<and> \<not> Equal None (Some [])"
  using Equal_iff [of "Some [term0 1 0 Public, term0 4 2 Secret]"
                      "Some [term0 1 0 Public, term0 4 2 Secret]"]
    Equal_iff [of "Some [term0 1 0 Public, term0 4 2 Secret]"
                  "Some [term0 1 0 Public, term0 4 1 Secret]"]
    Equal_iff [of None "Some []"]
  by (simp add: same_sequence_def terms_def term0_def)

text \<open>
  C9, as stated, fails: a \<open>nil\<close> linear combination and its own clone, which is empty
  but not \<open>nil\<close>, are element-wise identical, and \<open>Equal\<close> returns false.
\<close>

theorem Equal_nil_counterexample:
  "\<not> (Equal None (Clone None) \<longleftrightarrow> same_sequence None (Clone None))"
  by (simp add: Equal_def Clone_def Len_def terms_def same_sequence_def)

text \<open>
  C6.  On a wire already solved, \<open>solveWithHint\<close> returns \<open>nil\<close> and the solution as
  it was.  So after a call that solved a wire with a hint of several outputs, calling
  it again on any of the output wires of that hint changes nothing and returns \<open>nil\<close>,
  however often.
\<close>

theorem solveWithHint_solved:
  "(slice_get (solved s) vID = Some True \<longrightarrow> solveWithHint k pool s vID h = Inr (None, s))
 \<and> (\<forall>s' f i. slice_get (solved s) vID = Some False
        \<and> solveWithHint k pool s vID h = Inr (None, s')
        \<and> mHintsFunctions s (ID h) = Some f
        \<and> i < nat (TotalOutputs f (int (length (Inputs h))))
      \<longrightarrow> i < length (Wires h)
        \<and> solveWithHint k pool' s' (Wires h ! i) h = Inr (None, s'))"
proof (intro conjI allI impI)
  assume "slice_get (solved s) vID = Some True"
  then show "solveWithHint k pool s vID h = Inr (None, s)" by (simp add: solveWithHint_def)
next
  fix s' f i
  assume a: "slice_get (solved s) vID = Some False
        \<and> solveWithHint k pool s vID h = Inr (None, s')
        \<and> mHintsFunctions s (ID h) = Some f
        \<and> i < nat (TotalOutputs f (int (length (Inputs h))))"
  then have u: "slice_get (solved s) vID = Some False"
    and r: "solveWithHint k pool s vID h = Inr (None, s')"
    and f: "mHintsFunctions s (ID h) = Some f"
    and i: "i < nat (TotalOutputs f (int (length (Inputs h))))" by simp_all
  from r u f obtain ins lam where ev: "eval_inputs k s (Inputs h) (pool 0) = Inr (Inr (ins, lam))"
    by (auto simp: solveWithHint_def split: sum.splits)
  have len: "length ins = length (Inputs h)" using ev by (rule eval_inputs_length)
  define n where "n = TotalOutputs f (int (length (Inputs h)))"
  from i have pos: "0 < n" by (simp add: n_def)
  obtain err outs where c: "call_hint f (map (\<lambda>x. x mod fr_Modulus) ins)
      (lam # map pool [1..<nat n]) = (err, outs)" by (cases "call_hint f (map (\<lambda>x. x mod fr_Modulus) ins)
      (lam # map pool [1..<nat n])") 
  from pos have lo: "length outs = nat n" using call_hint_length [OF c] by simp
  from r u f ev pos c have so: "set_outputs s (Wires h) outs = Inr s'"
    by (auto simp: solveWithHint_def len n_def [symmetric] split: sum.splits)
  from i lo have il: "i < length outs" by (simp add: n_def)
  from set_outputs_count [OF so] il show "i < length (Wires h)" by simp
  from set_outputs_written [OF so il]
  have "slice_get (solved s') (Wires h ! i) = Some True" by simp
  then show "solveWithHint k pool' s' (Wires h ! i) h = Inr (None, s')"
    by (simp add: solveWithHint_def)
qed

theorem solveWithHint_solved_witness:
  "slice_get (solved s_h) 2 = Some False \<and> solveWithHint k0 pool0 s_h 2 h_multi = Inr (None, s_h')
   \<and> mHintsFunctions s_h (ID h_multi) = Some f_multi
   \<and> (1::nat) < nat (TotalOutputs f_multi (int (length (Inputs h_multi))))
   \<and> Wires h_multi ! 1 = 3 \<and> slice_get (solved s_h') 3 = Some True
   \<and> solveWithHint k0 pool0 s_h' 3 h_multi = Inr (None, s_h')"
proof -
  have u: "slice_get (solved s_h) 2 = Some False" by (simp add: s_h_def slice_get_def)
  have f: "mHintsFunctions s_h (ID h_multi) = Some f_multi" by (simp add: s_h_def h_multi_def)
  have n: "(1::nat) < nat (TotalOutputs f_multi (int (length (Inputs h_multi))))"
    by (simp add: f_multi_def NewFixedHint_def as_AnnotatedFunction_def fixed_TotalOutputs_def)
  have w: "Wires h_multi ! 1 = 3" by (simp add: h_multi_def)
  have v: "slice_get (solved s_h') 3 = Some True" by (simp add: s_h'_def slice_get_def)
  note t = solveWithHint_solved [of s_h 2 k0 pool0 h_multi pool0]
  from t u solveWithHint_h_multi f n
  have a: "solveWithHint k0 pool0 s_h' (Wires h_multi ! 1) h_multi = Inr (None, s_h')" by blast
  from solveWithHint_solved [of s_h' 3 k0 pool0 h_multi pool0] v
  have b: "solveWithHint k0 pool0 s_h' 3 h_multi = Inr (None, s_h')" by blast
  show ?thesis using u solveWithHint_h_multi f n w v b by blast
qed

text \<open>
  C7.  For a hint whose input terms have their IDs within the arrays: when no
  real-wire term references an unsolved wire, the inputs evaluate to the sum, for each
  input, of the coefficient values of its \<open>Virtual\<close> terms and of \<open>computeTerm\<close> of its
  real-wire terms, and the hint is called with these values reduced modulo the field
  modulus; when some real-wire term of some input references an unsolved wire,
  \<open>solveWithHint\<close> on an unsolved wire with a known hint function returns the error
  of the unresolved dependency and leaves the solution as it was.
\<close>

theorem solveWithHint_inputs:
  assumes wf: "\<forall>lc\<in>set (Inputs h). \<forall>t\<in>set (terms lc). wf_term k s t"
  shows "((\<forall>lc\<in>set (Inputs h). \<forall>t\<in>set (terms lc). \<not> unsolved_term s t) \<longrightarrow>
            (\<exists>lam. eval_inputs k s (Inputs h) (pool 0)
                      = Inr (Inr (map (input_value k s) (Inputs h), lam))
                  \<and> (\<forall>f. slice_get (solved s) vID = Some False
                         \<and> mHintsFunctions s (ID h) = Some f
                         \<and> 0 < TotalOutputs f (int (length (Inputs h))) \<longrightarrow>
                       solveWithHint k pool s vID h =
                         (case call_hint f
                                 (map (\<lambda>lc. input_value k s lc mod fr_Modulus) (Inputs h))
                                 (lam # map pool
                                    [1..<nat (TotalOutputs f (int (length (Inputs h))))]) of
                            (err, outs) \<Rightarrow>
                              (case set_outputs s (Wires h) outs of
                                 Inl p \<Rightarrow> Inl p
                               | Inr s' \<Rightarrow> Inr (err, s'))))))
       \<and> ((\<exists>lc\<in>set (Inputs h). \<exists>t\<in>set (terms lc). unsolved_term s t)
            \<and> slice_get (solved s) vID = Some False \<and> mHintsFunctions s (ID h) \<noteq> None \<longrightarrow>
            solveWithHint k pool s vID h = Inr (Some WireNotInstantiated, s))"
proof (intro conjI impI)
  assume ok: "\<forall>lc\<in>set (Inputs h). \<forall>t\<in>set (terms lc). \<not> unsolved_term s t"
  with wf have "\<forall>lc\<in>set (Inputs h). \<forall>t\<in>set (terms lc). wf_term k s t \<and> \<not> unsolved_term s t"
    by blast
  from eval_inputs_solved [OF this] obtain lam where
    ev: "eval_inputs k s (Inputs h) (pool 0) = Inr (Inr (map (input_value k s) (Inputs h), lam))"
    by blast
  have "solveWithHint k pool s vID h =
          (case call_hint f (map (\<lambda>lc. input_value k s lc mod fr_Modulus) (Inputs h))
                  (lam # map pool [1..<nat (TotalOutputs f (int (length (Inputs h))))]) of
             (err, outs) \<Rightarrow>
               (case set_outputs s (Wires h) outs of
                  Inl p \<Rightarrow> Inl p
                | Inr s' \<Rightarrow> Inr (err, s')))"
    if "slice_get (solved s) vID = Some False \<and> mHintsFunctions s (ID h) = Some f
        \<and> 0 < TotalOutputs f (int (length (Inputs h)))" for f
    using that ev by (simp add: solveWithHint_def comp_def)
  with ev show "\<exists>lam. eval_inputs k s (Inputs h) (pool 0)
                      = Inr (Inr (map (input_value k s) (Inputs h), lam))
                  \<and> (\<forall>f. slice_get (solved s) vID = Some False
                         \<and> mHintsFunctions s (ID h) = Some f
                         \<and> 0 < TotalOutputs f (int (length (Inputs h))) \<longrightarrow>
                       solveWithHint k pool s vID h =
                         (case call_hint f
                                 (map (\<lambda>lc. input_value k s lc mod fr_Modulus) (Inputs h))
                                 (lam # map pool
                                    [1..<nat (TotalOutputs f (int (length (Inputs h))))]) of
                            (err, outs) \<Rightarrow>
                              (case set_outputs s (Wires h) outs of
                                 Inl p \<Rightarrow> Inl p
                               | Inr s' \<Rightarrow> Inr (err, s'))))"
    by blast
next
  assume a: "(\<exists>lc\<in>set (Inputs h). \<exists>t\<in>set (terms lc). unsolved_term s t)
            \<and> slice_get (solved s) vID = Some False \<and> mHintsFunctions s (ID h) \<noteq> None"
  then have ex: "\<exists>lc\<in>set (Inputs h). \<exists>t\<in>set (terms lc). unsolved_term s t" by simp
  from a obtain f where f: "mHintsFunctions s (ID h) = Some f" by auto
  from a have u: "slice_get (solved s) vID = Some False" by simp
  show "solveWithHint k pool s vID h = Inr (Some WireNotInstantiated, s)"
    using eval_inputs_unsolved [OF wf ex, of "pool 0"] u f by (simp add: solveWithHint_def)
qed

theorem solveWithHint_inputs_witness:
  "list_all (\<lambda>lc. list_all (wf_term k0 s_h) (terms lc)) (Inputs h_multi)
   \<and> list_all (\<lambda>lc. list_all (\<lambda>t. \<not> unsolved_term s_h t) (terms lc)) (Inputs h_multi)
   \<and> map (input_value k0 s_h) (Inputs h_multi) = [5, 7]
   \<and> eval_inputs k0 s_h (Inputs h_multi) (pool0 0) = Inr (Inr ([5, 7], 7))
   \<and> list_all (\<lambda>lc. list_all (wf_term k0 s_h) (terms lc)) (Inputs h_early)
   \<and> unsolved_term s_h (term0 1 3 Secret)
   \<and> slice_get (solved s_h) 2 = Some False \<and> mHintsFunctions s_h (ID h_early) \<noteq> None
   \<and> solveWithHint k0 pool0 s_h 2 h_early = Inr (Some WireNotInstantiated, s_h)"
proof -
  have ok: "\<forall>lc\<in>set (Inputs h_multi). \<forall>t\<in>set (terms lc). \<not> unsolved_term s_h t"
    by (simp add: h_multi_def terms_def unsolved_term_def term0_def s_h_def slice_get_def)
  from solveWithHint_inputs [OF wf_h_multi, of pool0 2] ok eval_inputs_h_multi [of "pool0 0"]
  have v: "map (input_value k0 s_h) (Inputs h_multi) = [5, 7]" by auto
  have un: "unsolved_term s_h (term0 1 3 Secret)"
    by (simp add: unsolved_term_def term0_def s_h_def slice_get_def)
  then have ex: "\<exists>lc\<in>set (Inputs h_early). \<exists>t\<in>set (terms lc). unsolved_term s_h t"
    by (simp add: h_early_def terms_def)
  have u: "slice_get (solved s_h) 2 = Some False" by (simp add: s_h_def slice_get_def)
  have f: "mHintsFunctions s_h (ID h_early) \<noteq> None" by (simp add: s_h_def h_early_def)
  from solveWithHint_inputs [OF wf_h_early, of pool0 2] ex u f
  have r: "solveWithHint k0 pool0 s_h 2 h_early = Inr (Some WireNotInstantiated, s_h)" by blast
  show ?thesis
    unfolding list_all_iff
    using wf_h_multi ok v eval_inputs_h_multi [of "pool0 0"] wf_h_early un u f r
    by blast
qed

text \<open>
  C1, as the code has it.  When the call of the hint function returns an error, every
  entry of the output buffer, as the call left it and whether the hint wrote it or
  not, is still converted to a field element and set on the output wire of its
  position; no other wire changes; and the error is then returned to the caller,
  unless one of these \<open>set\<close>s panics.
\<close>

theorem solveWithHint_call_error:
  assumes u: "slice_get (solved s) vID = Some False"
    and f: "mHintsFunctions s (ID h) = Some f"
    and ev: "eval_inputs k s (Inputs h) (pool 0) = Inr (Inr (ins, lam))"
    and n: "0 < TotalOutputs f (int (length ins))"
    and call: "call_hint f (map (\<lambda>x. x mod fr_Modulus) ins)
                 (lam # map pool [1..<nat (TotalOutputs f (int (length ins)))]) = (Some e, outs)"
  shows "(\<forall>p. set_outputs s (Wires h) outs = Inl p \<longrightarrow> solveWithHint k pool s vID h = Inl p)
       \<and> (\<forall>s'. set_outputs s (Wires h) outs = Inr s' \<longrightarrow>
             solveWithHint k pool s vID h = Inr (Some e, s')
           \<and> int (length outs) = TotalOutputs f (int (length ins))
           \<and> nbSolved s' = nbSolved s + TotalOutputs f (int (length ins))
           \<and> (\<forall>i<length outs.
                  slice_get (solved s') (Wires h ! i) = Some True
                \<and> slice_get (values s') (Wires h ! i) = Some (fr_SetBigInt (outs ! i)))
           \<and> (\<forall>j. j \<notin> set (take (length outs) (Wires h)) \<longrightarrow>
                  slice_get (values s') j = slice_get (values s) j
                \<and> slice_get (solved s') j = slice_get (solved s) j))"
proof (intro conjI allI impI)
  fix p assume "set_outputs s (Wires h) outs = Inl p"
  then show "solveWithHint k pool s vID h = Inl p"
    using u f ev n call by (simp add: solveWithHint_def)
next
  fix s' assume so: "set_outputs s (Wires h) outs = Inr s'"
  then show "solveWithHint k pool s vID h = Inr (Some e, s')"
    using u f ev n call by (simp add: solveWithHint_def)
  from n call_hint_length [OF call]
  show lo: "int (length outs) = TotalOutputs f (int (length ins))" by simp
  from set_outputs_count [OF so] lo
  show "nbSolved s' = nbSolved s + TotalOutputs f (int (length ins))" by simp
next
  fix s' i assume so: "set_outputs s (Wires h) outs = Inr s'" and i: "i < length outs"
  from set_outputs_written [OF so i]
  show "slice_get (solved s') (Wires h ! i) = Some True"
    and "slice_get (values s') (Wires h ! i) = Some (fr_SetBigInt (outs ! i))" by simp_all
next
  fix s' j assume so: "set_outputs s (Wires h) outs = Inr s'"
    and j: "j \<notin> set (take (length outs) (Wires h))"
  from set_outputs_frame [OF so j]
  show "slice_get (values s') j = slice_get (values s) j"
    and "slice_get (solved s') j = slice_get (solved s) j" by simp_all
qed

theorem solveWithHint_call_error_witness:
  "slice_get (solved s_a) 2 = Some False \<and> mHintsFunctions s_a (ID h_one) = Some f_arity
   \<and> eval_inputs k0 s_a (Inputs h_one) (pool0 0) = Inr (Inr ([7], 7))
   \<and> 0 < TotalOutputs f_arity (int (length [7::int]))
   \<and> call_hint f_arity (map (\<lambda>x. x mod fr_Modulus) [7])
        (7 # map pool0 [1..<nat (TotalOutputs f_arity (int (length [7::int])))])
       = (Some (InputArity 1 2), [7])
   \<and> set_outputs s_a (Wires h_one) [7] = Inr s_a'
   \<and> solveWithHint k0 pool0 s_a 2 h_one = Inr (Some (InputArity 1 2), s_a')
   \<and> nbSolved s_a' = nbSolved s_a + 1
   \<and> slice_get (values s_a') 3 = slice_get (values s_a) 3"
proof -
  have e: "eval_inputs k0 s_a (Inputs h_one) (pool0 0) = Inr (Inr ([7], 7))"
    by (simp add: h_one_def s_a_def terms_def term0_def Unpack_def slice_get_def k0_def
        computeTerm_def fr_ToBigIntRegular_def)
  have n1: "TotalOutputs f_arity (int (length [7::int])) = 1"
    by (simp add: f_arity_def NewFixedHint_def as_AnnotatedFunction_def fixed_TotalOutputs_def)
  then have n: "0 < TotalOutputs f_arity (int (length [7::int]))" by simp
  have c: "call_hint f_arity (map (\<lambda>x. x mod fr_Modulus) [7])
        (7 # map pool0 [1..<nat (TotalOutputs f_arity (int (length [7::int])))])
       = (Some (InputArity 1 2), [7])"
    unfolding n1
    by (simp add: call_hint_def f_arity_def NewFixedHint_def as_AnnotatedFunction_def
        fixed_Call_def fr_Modulus_def)
  have so: "set_outputs s_a (Wires h_one) [7] = Inr s_a'"
    by (simp add: h_one_def set_sol_def s_a_def s_a'_def slice_get_def in_range_def
        fr_SetBigInt_def fr_Modulus_def numeral_2_eq_2)
  have u: "slice_get (solved s_a) 2 = Some False" by (simp add: s_a_def slice_get_def)
  have f: "mHintsFunctions s_a (ID h_one) = Some f_arity" by (simp add: s_a_def h_one_def)
  have j: "3 \<notin> set (take (length [7::int]) (Wires h_one))" by (simp add: h_one_def)
  note t = solveWithHint_call_error [OF u f e n c]
  from t so have r: "solveWithHint k0 pool0 s_a 2 h_one = Inr (Some (InputArity 1 2), s_a')"
    by blast
  from t so n1 have r2: "nbSolved s_a' = nbSolved s_a + 1" by metis
  from t so j have r3: "slice_get (values s_a') 3 = slice_get (values s_a) 3" by blast
  show ?thesis using u f e n c so r r2 r3 by blast
qed

text \<open>
  C1, as stated, fails.  The hint of \<open>h_one\<close> gets one input where its function
  declares two: its call returns the arity error and leaves the output buffer as it
  was, having written nothing.  Wire 2 is assigned all the same, with the stale
  content of the buffer, and counted as solved.
\<close>

theorem solveWithHint_error_counterexample:
  "call_hint f_arity [7] [7] = (Some (InputArity 1 2), [7])
   \<and> slice_get (solved s_a) 2 = Some False
   \<and> solveWithHint k0 pool0 s_a 2 h_one = Inr (Some (InputArity 1 2), s_a')
   \<and> slice_get (solved s_a') 2 = Some True \<and> slice_get (values s_a') 2 = Some 7
   \<and> nbSolved s_a' = nbSolved s_a + 1"
proof -
  have c: "call_hint f_arity [7] [7] = (Some (InputArity 1 2), [7])"
    by (simp add: call_hint_def f_arity_def NewFixedHint_def as_AnnotatedFunction_def
        fixed_Call_def)
  have r: "slice_get (solved s_a) 2 = Some False" "slice_get (solved s_a') 2 = Some True"
    "slice_get (values s_a') 2 = Some 7" "nbSolved s_a' = nbSolved s_a + 1"
    by (simp_all add: s_a_def s_a'_def slice_get_def)
  show ?thesis using c r solveWithHint_h_one by blast
qed

text \<open>
  What holds of the registry and of the identifiers for every input.  \<open>Register\<close>
  panics on an identifier already in the registry.  The identifier of a fixed hint is
  given by the name of its function and its two arities.  Two arities whose sixteen
  hashed bytes differ at exactly one position give two different identifiers for the
  same function.  Whenever the identifiers of two functions differ and neither is in
  the registry, both registrations succeed and each function is found under its own
  identifier.
\<close>

lemma Register_identifiers:
  "(reg (UUID g) \<noteq> None \<longrightarrow> Register reg g = Inl RegisteredTwice)
 \<and> (fn_name h1 = fn_name h2 \<and> nIn h1 = nIn h2 \<and> nOut h1 = nOut h2 \<longrightarrow>
       fixed_UUID h1 = fixed_UUID h2)
 \<and> (differences (arity_bytes a b) (arity_bytes a' b') = 1 \<longrightarrow>
       UUID (NewFixedHint name f a b) \<noteq> UUID (NewFixedHint name f a' b'))
 \<and> (reg (UUID g1) = None \<and> reg (UUID g2) = None \<and> UUID g1 \<noteq> UUID g2 \<longrightarrow>
       Register reg g1 = Inr (reg(UUID g1 \<mapsto> g1))
     \<and> Register (reg(UUID g1 \<mapsto> g1)) g2 = Inr (reg(UUID g1 \<mapsto> g1, UUID g2 \<mapsto> g2))
     \<and> (reg(UUID g1 \<mapsto> g1, UUID g2 \<mapsto> g2)) (UUID g1) = Some g1
     \<and> (reg(UUID g1 \<mapsto> g1, UUID g2 \<mapsto> g2)) (UUID g2) = Some g2)"
proof (intro conjI impI)
  assume "reg (UUID g) \<noteq> None"
  then show "Register reg g = Inl RegisteredTwice" by (simp add: Register_def)
next
  assume "fn_name h1 = fn_name h2 \<and> nIn h1 = nIn h2 \<and> nOut h1 = nOut h2"
  then show "fixed_UUID h1 = fixed_UUID h2" by (simp add: fixed_UUID_def)
next
  assume d: "differences (arity_bytes a b) (arity_bytes a' b') = 1"
  have l: "length (arity_bytes a b) = length (arity_bytes a' b')"
    by (simp add: arity_bytes_def length_PutUint64)
  show "UUID (NewFixedHint name f a b) \<noteq> UUID (NewFixedHint name f a' b')"
    unfolding UUID_NewFixedHint by (rule fnv_Write_one_difference [OF l d])
next
  assume a: "reg (UUID g1) = None \<and> reg (UUID g2) = None \<and> UUID g1 \<noteq> UUID g2"
  then show "Register reg g1 = Inr (reg(UUID g1 \<mapsto> g1))" by (simp add: Register_def)
  from a have "UUID g2 \<noteq> UUID g1" by (simp add: eq_commute)
  with a show "Register (reg(UUID g1 \<mapsto> g1)) g2 = Inr (reg(UUID g1 \<mapsto> g1, UUID g2 \<mapsto> g2))"
    by (simp add: Register_def Let_def)
  from a show "(reg(UUID g1 \<mapsto> g1, UUID g2 \<mapsto> g2)) (UUID g1) = Some g1" by simp
  show "(reg(UUID g1 \<mapsto> g1, UUID g2 \<mapsto> g2)) (UUID g2) = Some g2" by simp
qed

lemma Register_identifiers_example:
  "differences (arity_bytes 2 2) (arity_bytes 1 2) = 1
   \<and> UUID (NewFixedHint name_IthBit double2 2 2) \<noteq> UUID (NewFixedHint name_IthBit double2 1 2)
   \<and> Register Map.empty (NewFixedHint name_IthBit double2 2 2)
       = Inr [UUID (NewFixedHint name_IthBit double2 2 2) \<mapsto> NewFixedHint name_IthBit double2 2 2]
   \<and> Register [UUID (NewFixedHint name_IthBit double2 2 2) \<mapsto> NewFixedHint name_IthBit double2 2 2]
        (NewFixedHint name_IthBit double2 1 2)
       = Inr [UUID (NewFixedHint name_IthBit double2 2 2) \<mapsto> NewFixedHint name_IthBit double2 2 2,
              UUID (NewFixedHint name_IthBit double2 1 2) \<mapsto> NewFixedHint name_IthBit double2 1 2]
   \<and> Register [UUID (NewFixedHint name_IthBit double2 2 2) \<mapsto> NewFixedHint name_IthBit double2 2 2]
        (NewFixedHint name_IthBit double2 2 2)
       = Inl RegisteredTwice
   \<and> fixed_UUID \<lparr>fn_name = name_IthBit, fn = double2, nIn = 2, nOut = 2\<rparr>
       = fixed_UUID \<lparr>fn_name = name_IthBit, fn = fixed_Call \<lparr>fn_name = [], fn = double2, nIn = 2, nOut = 2\<rparr>,
                     nIn = 2, nOut = 2\<rparr>"
proof -
  define g1 where "g1 = NewFixedHint name_IthBit double2 2 2"
  define g2 where "g2 = NewFixedHint name_IthBit double2 1 2"
  have d: "differences (arity_bytes 2 2) (arity_bytes 1 2) = 1"
    by (simp add: differences_def arity_bytes_def PutUint64_def)
  note t = Register_identifiers [of Map.empty g1 _ _ 2 2 1 2 name_IthBit double2 g1 g2]
  from t d have ne: "UUID g1 \<noteq> UUID g2" unfolding g1_def g2_def by blast
  have e: "Map.empty (UUID g1) = None" "Map.empty (UUID g2) = None" by simp_all
  from t e ne have r: "Register Map.empty g1 = Inr [UUID g1 \<mapsto> g1]"
    "Register [UUID g1 \<mapsto> g1] g2 = Inr [UUID g1 \<mapsto> g1, UUID g2 \<mapsto> g2]" by blast+
  have "[UUID g1 \<mapsto> g1] (UUID g1) \<noteq> None" by simp
  with Register_identifiers [of "[UUID g1 \<mapsto> g1]" g1]
  have tw: "Register [UUID g1 \<mapsto> g1] g1 = Inl RegisteredTwice" by blast
  have det: "fixed_UUID \<lparr>fn_name = name_IthBit, fn = double2, nIn = 2, nOut = 2\<rparr>
       = fixed_UUID \<lparr>fn_name = name_IthBit, fn = fixed_Call \<lparr>fn_name = [], fn = double2, nIn = 2, nOut = 2\<rparr>,
                     nIn = 2, nOut = 2\<rparr>"
    using Register_identifiers [where ?h1.0 = "\<lparr>fn_name = name_IthBit, fn = double2, nIn = 2, nOut = 2\<rparr>"
        and ?h2.0 = "\<lparr>fn_name = name_IthBit, fn = fixed_Call \<lparr>fn_name = [], fn = double2, nIn = 2, nOut = 2\<rparr>,
                     nIn = 2, nOut = 2\<rparr>"]
    by simp
  show ?thesis using d ne r tw det unfolding g1_def g2_def by blast
qed


text \<open>
  C10.  A term that is not the delimiter, met outside a span, adds to the arguments:
  for a \<open>Virtual\<close> term the text \<open>-1\<close> when its coefficient ID is that of -1 and the
  string of its coefficient otherwise; for another term the string of its coefficient
  unless the coefficient ID is that of 1 or of -1, followed by the string of the
  value of its wire when the wire is solved and by \<open><unsolved>\<close> when it is not.  A
  log entry without delimiters is rendered from these pieces in order.
\<close>

theorem logValue_outside_span:
  "(t \<noteq> TermDelimitor k \<and> wf_log_term k s t \<longrightarrow>
      logValue_loop k str s (t # ts) False ev mv acc
        = logValue_loop k str s ts False ev mv (acc @ render_term k str s t))
 \<and> ((\<forall>t\<in>set (ToResolve log). t \<noteq> TermDelimitor k \<and> wf_log_term k s t) \<longrightarrow>
      logValue k str sprintf s log
        = Inr (sprintf (Format log) (concat (map (render_term k str s) (ToResolve log)))))"
proof (intro conjI impI)
  assume "t \<noteq> TermDelimitor k \<and> wf_log_term k s t"
  then have d: "t \<noteq> TermDelimitor k" and wf: "wf_log_term k s t" by simp_all
  show "logValue_loop k str s (t # ts) False ev mv acc
        = logValue_loop k str s ts False ev mv (acc @ render_term k str s t)"
    by (rule logValue_step [OF d wf])
next
  assume "\<forall>t\<in>set (ToResolve log). t \<noteq> TermDelimitor k \<and> wf_log_term k s t"
  from logValue_loop_plain [OF this]
  show "logValue k str sprintf s log
        = Inr (sprintf (Format log) (concat (map (render_term k str s) (ToResolve log))))"
    by (simp add: logValue_def)
qed

theorem logValue_outside_span_witness:
  "list_all (\<lambda>t. t \<noteq> TermDelimitor k0 \<and> wf_log_term k0 s0 t) (ToResolve log0)
   \<and> concat (map (render_term k0 str0 s0) (ToResolve log0))
       = [''5'', ''-1'', ''5'', ''7'', ''7'', ''<unsolved>'']
   \<and> logValue_loop k0 str0 s0 (ToResolve log0) False fr_Zero False []
       = Inr [''5'', ''-1'', ''5'', ''7'', ''7'', ''<unsolved>'']
   \<and> (\<forall>sprintf. logValue k0 str0 sprintf s0 log0
         = Inr (sprintf ''%s %s %s%s %s%s'' [''5'', ''-1'', ''5'', ''7'', ''7'', ''<unsolved>'']))"
proof -
  have wf: "\<forall>t\<in>set (ToResolve log0). t \<noteq> TermDelimitor k0 \<and> wf_log_term k0 s0 t"
    by (simp add: log0_def term0_def k0_def wf_log_term_def s0_def coeffs0_def in_range_def)
  have c: "concat (map (render_term k0 str0 s0) (ToResolve log0))
       = [''5'', ''-1'', ''5'', ''7'', ''7'', ''<unsolved>'']"
    by (simp add: log0_def term0_def k0_def render_term_def s0_def coeffs0_def str0_def
        unsolvedVariable_def dec_nat_digit del: dec_nat.simps)
  have f: "Format log0 = ''%s %s %s%s %s%s''" by (simp add: log0_def)
  have r: "logValue k0 str0 sprintf s0 log0
        = Inr (sprintf ''%s %s %s%s %s%s'' [''5'', ''-1'', ''5'', ''7'', ''7'', ''<unsolved>''])"
    for sprintf
  proof -
    from logValue_outside_span [of _ k0 s0 str0 _ _ _ _ log0 sprintf] wf
    have "logValue k0 str0 sprintf s0 log0
        = Inr (sprintf (Format log0) (concat (map (render_term k0 str0 s0) (ToResolve log0))))"
      by blast
    then show ?thesis by (simp only: c f)
  qed
  have l: "logValue_loop k0 str0 s0 (ToResolve log0) False fr_Zero False []
       = Inr [''5'', ''-1'', ''5'', ''7'', ''7'', ''<unsolved>'']"
    using logValue_loop_plain [OF wf, where str = str0 and ev = fr_Zero and mv = False
        and acc = "[]"]
    by (simp only: c append_Nil)
  from wf c l r show ?thesis unfolding list_all_iff by blast
qed

end
